(* ===== verification/Go_Prelude.thy ===== *)
theory Go_Prelude
  imports Main "HOL-Library.Word"
begin

text \<open>
  The part of Go and of its standard library that every component of the proxy uses:
  byte strings, decimal numbers, 64-bit integers, instants and durations, and error values.

  A Go \<^verbatim>\<open>string\<close> is a sequence of bytes and is modelled by \<^typ>\<open>string\<close>, one \<^typ>\<open>char\<close> per byte.
  Case mapping and white space are the ASCII part of \<^verbatim>\<open>strings.ToLower\<close> and
  \<^verbatim>\<open>strings.TrimSpace\<close>: bytes from 128 on are left alone (the Unicode tables are not
  modelled).  \<^verbatim>\<open>strings.EqualFold\<close> is only called against ASCII constants, and there the two
  non-ASCII code points that fold to an ASCII letter (U+017F to s, U+212A to k) are included.

  The theory also holds what the component theories share for their proofs: the collections
  \<open>go_simps\<close> (unfoldings that let concrete inputs be evaluated) and the generic
  notion of a reachable state with its induction principle.
\<close>

named_theorems go_simps \<open>definitions of the Go library model, unfolded to evaluate closed terms\<close>

type_synonym duration = int  \<comment> \<open>\<^verbatim>\<open>time.Duration\<close>: nanoseconds\<close>
type_synonym time = int      \<comment> \<open>\<^verbatim>\<open>time.Time\<close>: nanoseconds after the zero Time (January 1, year 1)\<close>

section \<open>Errors\<close>

text \<open>
  An error value keeps what \<^verbatim>\<open>errors.Is\<close> and \<^verbatim>\<open>errors.As\<close> can see of it.  \<open>Errorf\<close> and
  \<open>Wrapf\<close> keep the format and the arguments of \<^verbatim>\<open>fmt.Errorf\<close> without printing them.
  \<open>NetErr\<close> is a library error that implements \<^verbatim>\<open>net.Error\<close>: its text, the answer of its
  \<^verbatim>\<open>Timeout\<close> method, whether its \<^verbatim>\<open>Is\<close> method identifies it with
  \<^verbatim>\<open>context.DeadlineExceeded\<close>, and the error it unwraps to.
\<close>

datatype err =
    New string
  | Errorf string "string list"
  | Wrapf string "string list" err
  | Joined "err list"
  | EOF
  | ErrShortWrite
  | ErrNetClosed
  | ErrServerClosed
  | Canceled
  | DeadlineExceeded
  | DestinationDenied
  | NetErr string bool bool "err option"

text \<open>\<^verbatim>\<open>errors.Is\<close> walks the tree of wrapped errors in pre-order.\<close>

fun errors_Is :: "err \<Rightarrow> err \<Rightarrow> bool" where
  "errors_Is (Wrapf f as e) target \<longleftrightarrow> errors_Is e target"
| "errors_Is (Joined es) target \<longleftrightarrow> (\<exists>e \<in> set es. errors_Is e target)"
| "errors_Is (NetErr s t d u) target \<longleftrightarrow>
     (d \<and> target = DeadlineExceeded) \<or> NetErr s t d u = target \<or>
     (case u of None \<Rightarrow> False | Some e \<Rightarrow> errors_Is e target)"
| "errors_Is e target \<longleftrightarrow> e = target"

text \<open>
  \<^verbatim>\<open>errors.As\<close> with a \<^verbatim>\<open>net.Error\<close> target followed by \<^verbatim>\<open>Timeout()\<close>: the first error
  in pre-order that implements the interface answers (\<^verbatim>\<open>context.DeadlineExceeded\<close> does, with
  true).  \<open>None\<close>: no error of the tree implements it.
\<close>

fun net_error_timeout :: "err \<Rightarrow> bool option"
  and net_error_timeouts :: "err list \<Rightarrow> bool option" where
  "net_error_timeout (Wrapf f as e) = net_error_timeout e"
| "net_error_timeout (Joined es) = net_error_timeouts es"
| "net_error_timeout (NetErr s t d u) = Some t"
| "net_error_timeout DeadlineExceeded = Some True"
| "net_error_timeout _ = None"
| "net_error_timeouts [] = None"
| "net_error_timeouts (e # es) =
     (case net_error_timeout e of Some t \<Rightarrow> Some t | None \<Rightarrow> net_error_timeouts es)"

section \<open>Strings\<close>

abbreviation byte_of :: "char \<Rightarrow> nat" where
  "byte_of c \<equiv> of_char c"

definition is_digit :: "char \<Rightarrow> bool" where
  [go_simps]: "is_digit c \<longleftrightarrow> 48 \<le> byte_of c \<and> byte_of c \<le> 57"

definition lower_char :: "char \<Rightarrow> char" where
  [go_simps]: "lower_char c = (if 65 \<le> byte_of c \<and> byte_of c \<le> 90 then char_of (byte_of c + 32) else c)"

definition upper_char :: "char \<Rightarrow> char" where
  [go_simps]: "upper_char c = (if 97 \<le> byte_of c \<and> byte_of c \<le> 122 then char_of (byte_of c - 32) else c)"

definition ToLower :: "string \<Rightarrow> string" where
  [go_simps]: "ToLower s = map lower_char s"

definition is_space :: "char \<Rightarrow> bool" where
  [go_simps]: "is_space c \<longleftrightarrow> byte_of c = 32 \<or> (9 \<le> byte_of c \<and> byte_of c \<le> 13)"

definition TrimSpace :: "string \<Rightarrow> string" where
  [go_simps]: "TrimSpace s = rev (dropWhile is_space (rev (dropWhile is_space s)))"

text \<open>Case folding for comparisons against an ASCII constant.\<close>

fun fold_case :: "string \<Rightarrow> string" where
  "fold_case [] = []"
| "fold_case (c # s) =
     (if byte_of c = 197 \<and> s \<noteq> [] \<and> byte_of (hd s) = 191 then CHR ''s'' # fold_case (tl s)
      else if byte_of c = 226 \<and> 2 \<le> length s \<and> byte_of (s ! 0) = 132 \<and> byte_of (s ! 1) = 170
      then CHR ''k'' # fold_case (drop 2 s)
      else lower_char c # fold_case s)"

definition EqualFold :: "string \<Rightarrow> string \<Rightarrow> bool" where
  [go_simps]: "EqualFold s t \<longleftrightarrow> fold_case s = fold_case t"

definition HasPrefix :: "string \<Rightarrow> string \<Rightarrow> bool" where
  [go_simps]: "HasPrefix s p \<longleftrightarrow> take (length p) s = p"

definition HasSuffix :: "string \<Rightarrow> string \<Rightarrow> bool" where
  [go_simps]: "HasSuffix s p \<longleftrightarrow> length p \<le> length s \<and> drop (length s - length p) s = p"

definition TrimSuffix :: "string \<Rightarrow> string \<Rightarrow> string" where
  [go_simps]: "TrimSuffix s p = (if HasSuffix s p then take (length s - length p) s else s)"

text \<open>\<^verbatim>\<open>strings.Split\<close> for a one-byte separator: never empty.\<close>

fun Split :: "string \<Rightarrow> char \<Rightarrow> string list" where
  "Split [] sep = [[]]"
| "Split (c # s) sep =
     (if c = sep then [] # Split s sep
      else (case Split s sep of [] \<Rightarrow> [[c]] | p # ps \<Rightarrow> (c # p) # ps))"

text \<open>\<^verbatim>\<open>strings.Cut\<close> for a one-byte separator; \<open>None\<close> is the result with \<open>found = false\<close>.\<close>

fun Cut :: "string \<Rightarrow> char \<Rightarrow> (string \<times> string) option" where
  "Cut [] sep = None"
| "Cut (c # s) sep =
     (if c = sep then Some ([], s)
      else (case Cut s sep of None \<Rightarrow> None | Some (b, a) \<Rightarrow> Some (c # b, a)))"

fun Join :: "string list \<Rightarrow> string \<Rightarrow> string" where
  "Join [] sep = []"
| "Join [s] sep = s"
| "Join (s # t # ss) sep = s @ sep @ Join (t # ss) sep"

text \<open>\<^verbatim>\<open>strings.Fields\<close>: the maximal runs of non-space bytes.\<close>

fun Fields_acc :: "string \<Rightarrow> string \<Rightarrow> string list" where
  "Fields_acc cur [] = (if cur = [] then [] else [rev cur])"
| "Fields_acc cur (c # s) =
     (if is_space c then (if cur = [] then Fields_acc [] s else rev cur # Fields_acc [] s)
      else Fields_acc (c # cur) s)"

definition Fields :: "string \<Rightarrow> string list" where
  [go_simps]: "Fields s = Fields_acc [] s"

subsection \<open>Lemmas on strings\<close>

lemma Split_nonempty [simp]: "Split s sep \<noteq> []"
  by (induction s sep rule: Split.induct) (auto split: list.splits)

lemma Cut_Some: "Cut s sep = Some (b, a) \<Longrightarrow> s = b @ sep # a \<and> sep \<notin> set b"
  by (induction s sep arbitrary: b rule: Cut.induct) (auto split: if_splits option.splits)

lemma Cut_None: "Cut s sep = None \<longleftrightarrow> sep \<notin> set s"
  by (induction s sep rule: Cut.induct) (auto split: option.splits)

lemma Cut_append [simp]: "sep \<notin> set b \<Longrightarrow> Cut (b @ sep # a) sep = Some (b, a)"
  by (induction b) auto

lemma Split_no_sep: "p \<in> set (Split s sep) \<Longrightarrow> sep \<notin> set p"
proof (induction s sep arbitrary: p rule: Split.induct)
  case (2 c s sep)
  then show ?case
    by (cases "Split s sep") (auto split: if_splits)
qed simp

lemma TrimSpace_idem [simp]: "TrimSpace (TrimSpace s) = TrimSpace s"
proof -
  let ?t = "dropWhile is_space (rev (dropWhile is_space s))"
  have front: "dropWhile is_space (rev ?t) = rev ?t"
  proof (cases "rev ?t")
    case (Cons a r)
    have "\<exists>zs. rev (dropWhile is_space s) = zs @ ?t"
      by (metis takeWhile_dropWhile_id)
    then obtain zs where "dropWhile is_space s = rev ?t @ rev zs"
      by (metis rev_append rev_rev_ident)
    with Cons have "dropWhile is_space s = a # (r @ rev zs)" by simp
    then have "\<not> is_space a"
      by (metis hd_dropWhile list.distinct(1) list.sel(1))
    with Cons show ?thesis by simp
  next
    case Nil
    then show ?thesis by (simp only: dropWhile.simps)
  qed
  show ?thesis
    unfolding TrimSpace_def front by (simp add: dropWhile_idem)
qed

section \<open>Decimal numbers\<close>

fun nat_digits :: "nat \<Rightarrow> string" where
  "nat_digits n =
     (if n < 10 then [char_of (48 + n)] else nat_digits (n div 10) @ [char_of (48 + n mod 10)])"

declare nat_digits.simps [simp del]

definition Itoa :: "int \<Rightarrow> string" where
  [go_simps]: "Itoa i = (if i < 0 then CHR ''-'' # nat_digits (nat (- i)) else nat_digits (nat i))"

fun digits_value :: "nat \<Rightarrow> string \<Rightarrow> nat" where
  "digits_value acc [] = acc"
| "digits_value acc (c # s) = digits_value (10 * acc + (byte_of c - 48)) s"

definition max_int64 :: int where [go_simps]: "max_int64 = 9223372036854775807"
definition min_int64 :: int where [go_simps]: "min_int64 = -9223372036854775808"

definition int64_range :: "int \<Rightarrow> bool" where
  [go_simps]: "int64_range i \<longleftrightarrow> min_int64 \<le> i \<and> i \<le> max_int64"

text \<open>
  \<^verbatim>\<open>strconv.Atoi\<close> on a 64-bit platform: an optional sign, at least one digit, nothing else, and
  the value must fit an \<^verbatim>\<open>int\<close>.  \<open>None\<close> is the error result.
\<close>

definition Atoi :: "string \<Rightarrow> int option" where
  [go_simps]: "Atoi s =
     (let neg = (s \<noteq> [] \<and> hd s = CHR ''-'');
          ds = (if s \<noteq> [] \<and> (hd s = CHR ''-'' \<or> hd s = CHR ''+'') then tl s else s);
          v = int (digits_value 0 ds)
      in if ds = [] \<or> \<not> list_all is_digit ds then None
         else if neg then (if - v < min_int64 then None else Some (- v))
         else if max_int64 < v then None else Some v)"

lemma is_digit_char_of [simp]: "n < 10 \<Longrightarrow> is_digit (char_of (48 + n :: nat))"
  by (simp add: is_digit_def)

lemma digits_value_append: "digits_value acc (s @ t) = digits_value (digits_value acc s) t"
  by (induction acc s rule: digits_value.induct) auto

lemma nat_digits_are_digits: "list_all is_digit (nat_digits n)"
  by (induction n rule: nat_digits.induct) (subst nat_digits.simps, simp)

lemma nat_digits_nonempty [simp]: "nat_digits n \<noteq> []"
  by (subst nat_digits.simps) simp

lemma digits_value_nat_digits: "digits_value 0 (nat_digits n) = n"
proof (induction n rule: nat_digits.induct)
  case (1 n)
  show ?case
    by (subst nat_digits.simps) (use 1 in \<open>auto simp: digits_value_append\<close>)
qed

lemma hd_nat_digits: "is_digit (hd (nat_digits n))"
  using nat_digits_are_digits [of n] by (cases "nat_digits n") auto

lemma Atoi_Itoa:
  assumes "int64_range i"
  shows "Atoi (Itoa i) = Some i"
proof (cases "i < 0")
  case True
  then show ?thesis
    using assms
    by (simp add: Atoi_def Itoa_def nat_digits_are_digits digits_value_nat_digits int64_range_def)
next
  case False
  let ?s = "nat_digits (nat i)"
  have "hd ?s \<noteq> CHR ''-''" and "hd ?s \<noteq> CHR ''+''"
    using hd_nat_digits [of "nat i"] by (auto simp: is_digit_def)
  then show ?thesis
    using False assms
    by (simp add: Atoi_def Itoa_def nat_digits_are_digits digits_value_nat_digits int64_range_def)
qed

lemma Atoi_range: "Atoi s = Some i \<Longrightarrow> int64_range i"
  by (auto simp: Atoi_def int64_range_def Let_def min_int64_def max_int64_def split: if_splits)

section \<open>64-bit arithmetic and time\<close>

definition wrap64 :: "int \<Rightarrow> int" where
  [go_simps]: "wrap64 i = (i + 9223372036854775808) mod 18446744073709551616 - 9223372036854775808"

text \<open>Go's integer division truncates towards zero.\<close>

definition go_quot :: "int \<Rightarrow> int \<Rightarrow> int" where
  [go_simps]: "go_quot a b = (if (a < 0) = (b < 0) then \<bar>a\<bar> div \<bar>b\<bar> else - (\<bar>a\<bar> div \<bar>b\<bar>))"

abbreviation Second :: duration where "Second \<equiv> 1000000000"
abbreviation Minute :: duration where "Minute \<equiv> 60000000000"

text \<open>
  Instants.  The zero \<^verbatim>\<open>Time\<close> is 0.  \<^verbatim>\<open>Time.Add\<close> is exact (the range of a \<^verbatim>\<open>Time\<close>
  exceeds that of a \<^verbatim>\<open>Duration\<close> by far); \<^verbatim>\<open>Time.Sub\<close> saturates at the bounds of
  \<^verbatim>\<open>Duration\<close>.
\<close>

definition time_IsZero :: "time \<Rightarrow> bool" where [go_simps]: "time_IsZero t \<longleftrightarrow> t = 0"
definition time_Add :: "time \<Rightarrow> duration \<Rightarrow> time" where [go_simps]: "time_Add t d = t + d"
definition time_Sub :: "time \<Rightarrow> time \<Rightarrow> duration" where
  [go_simps]: "time_Sub t u = max min_int64 (min max_int64 (t - u))"
definition time_Before :: "time \<Rightarrow> time \<Rightarrow> bool" where [go_simps]: "time_Before t u \<longleftrightarrow> t < u"
definition time_After :: "time \<Rightarrow> time \<Rightarrow> bool" where [go_simps]: "time_After t u \<longleftrightarrow> u < t"

lemma wrap64_id: "int64_range i \<Longrightarrow> wrap64 i = i"
  by (simp add: wrap64_def int64_range_def min_int64_def max_int64_def)

lemma wrap64_range: "int64_range (wrap64 i)"
  unfolding wrap64_def int64_range_def min_int64_def max_int64_def
  by (smt (verit) pos_mod_bound pos_mod_sign)

lemma time_Sub_ge:
  assumes "d \<le> max_int64" and "min_int64 < d"
  shows "d \<le> time_Sub t u \<longleftrightarrow> u + d \<le> t"
  using assms by (auto simp: time_Sub_def)

lemma time_Sub_pos: "u < t \<Longrightarrow> time_Sub t u = min max_int64 (t - u)"
  by (auto simp: time_Sub_def min_int64_def max_int64_def)

section \<open>Reachable states\<close>

text \<open>
  The states a component can be in when its operations are called in any order, by any number
  of goroutines: each operation body runs under the component's mutex and is one step.
\<close>

inductive reachable :: "('s \<Rightarrow> bool) \<Rightarrow> ('s \<Rightarrow> 's \<Rightarrow> bool) \<Rightarrow> 's \<Rightarrow> bool"
  for init :: "'s \<Rightarrow> bool" and step :: "'s \<Rightarrow> 's \<Rightarrow> bool" where
  reach_init: "init s \<Longrightarrow> reachable init step s"
| reach_step: "reachable init step s \<Longrightarrow> step s t \<Longrightarrow> reachable init step t"

locale inductive_invariant =
  fixes init :: "'s \<Rightarrow> bool"
    and step :: "'s \<Rightarrow> 's \<Rightarrow> bool"
    and inv :: "'s \<Rightarrow> bool"
  assumes inv_init: "init s \<Longrightarrow> inv s"
    and inv_step: "inv s \<Longrightarrow> step s t \<Longrightarrow> inv t"
begin

lemma reachable_inv: "reachable init step s \<Longrightarrow> inv s"
  by (induction rule: reachable.induct) (auto intro: inv_init inv_step)

lemma steps_inv: "step\<^sup>*\<^sup>* s t \<Longrightarrow> inv s \<Longrightarrow> inv t"
  by (induction rule: rtranclp_induct) (auto intro: inv_step)

end

end
