(* ===== verification/Failure_Limiter.thy ===== *)
theory Failure_Limiter
  imports Go_Prelude
begin

text \<open>
  The failed-attempt limiter of \<^verbatim>\<open>internal/auth/limiter.go\<close>.

  \<^verbatim>\<open>failureLimiter\<close> is a record; a nil limiter is \<open>None\<close>.  Every method takes the instant its
  call to \<^verbatim>\<open>l.now()\<close> returns.  The bodies run under the mutex, so a history of the limiter is
  a sequence of whole operations.  The code reads the clock just before it takes the lock; the
  histories below are those in which the instants are in the order of the operations, which two
  calls that race for the lock may break by the time they wait for it.  The theory shows that the periodic cleanup is invisible and
  clients do not influence each other (\<open>run_limiter_key\<close>), when a client is blocked and
  for how long, and that fewer failures than the limit never block.
\<close>

section \<open>The limiter\<close>

record failureRecord =
  failures :: int
  windowStart :: time
  blockedUntil :: time

record failureLimiter =
  maxFailures :: int
  window :: duration
  block :: duration
  records :: "string \<rightharpoonup> failureRecord"
  nextCleanup :: time

definition newFailureLimiter :: "int \<Rightarrow> duration \<Rightarrow> duration \<Rightarrow> failureLimiter option" where
  "newFailureLimiter maxF win blk =
     (if maxF \<le> 0 \<or> win \<le> 0 \<or> blk \<le> 0 then None
      else Some \<lparr>maxFailures = maxF, window = win, block = blk,
                 records = Map.empty, nextCleanup = 0\<rparr>)"

definition cleanup :: "failureLimiter \<Rightarrow> time \<Rightarrow> failureLimiter" where
  "cleanup l now =
     (if time_Before now (nextCleanup l) then l
      else l\<lparr>records := (\<lambda>key. case records l key of
                 None \<Rightarrow> None
               | Some r \<Rightarrow>
                   (let e = time_Add (windowStart r) (window l);
                        expires = (if time_After (blockedUntil r) e then blockedUntil r else e)
                    in if \<not> time_Before now expires then None else Some r)),
             nextCleanup := time_Add now (window l)\<rparr>)"

fun retryAfter :: "failureLimiter option \<Rightarrow> time \<Rightarrow> string \<Rightarrow> duration \<times> failureLimiter option" where
  "retryAfter None now key = (0, None)"
| "retryAfter (Some l) now key =
     (let l = cleanup l now in
      case records l key of
        None \<Rightarrow> (0, Some l)
      | Some r \<Rightarrow>
          if time_IsZero (blockedUntil r) then (0, Some l)
          else if \<not> time_Before now (blockedUntil r)
          then (0, Some (l\<lparr>records := (records l)(key := None)\<rparr>))
          else (time_Sub (blockedUntil r) now, Some l))"

fun recordFailure :: "failureLimiter option \<Rightarrow> time \<Rightarrow> string \<Rightarrow> failureLimiter option" where
  "recordFailure None now key = None"
| "recordFailure (Some l) now key =
     (let l = cleanup l now;
          r0 = \<lparr>failures = 0, windowStart = now, blockedUntil = 0\<rparr>;
          r = (case records l key of
                 None \<Rightarrow> r0
               | Some r \<Rightarrow> if window l \<le> time_Sub now (windowStart r) then r0 else r);
          r = r\<lparr>failures := failures r + 1\<rparr>;
          r = (if maxFailures l \<le> failures r then r\<lparr>blockedUntil := time_Add now (block l)\<rparr> else r)
      in Some (l\<lparr>records := (records l)(key \<mapsto> r)\<rparr>))"

fun reset :: "failureLimiter option \<Rightarrow> string \<Rightarrow> failureLimiter option" where
  "reset None key = None"
| "reset (Some l) key = Some (l\<lparr>records := (records l)(key := None)\<rparr>)"

section \<open>Histories of the limiter, and what one client sees\<close>

datatype limiter_op = RetryAfter string | RecordFailure string | Reset string

fun op_key :: "limiter_op \<Rightarrow> string" where
  "op_key (RetryAfter k) = k"
| "op_key (RecordFailure k) = k"
| "op_key (Reset k) = k"

text \<open>
  A history runs the operations in order; its answers are the results of the \<open>RetryAfter\<close> calls.
\<close>

fun limiter_step :: "failureLimiter option \<Rightarrow> time \<Rightarrow> limiter_op \<Rightarrow> failureLimiter option" where
  "limiter_step l now (RetryAfter k) = snd (retryAfter l now k)"
| "limiter_step l now (RecordFailure k) = recordFailure l now k"
| "limiter_step l now (Reset k) = reset l k"

fun limiter_answer :: "failureLimiter option \<Rightarrow> time \<Rightarrow> limiter_op \<Rightarrow> duration list" where
  "limiter_answer l now (RetryAfter k) = [fst (retryAfter l now k)]"
| "limiter_answer l now _ = []"

fun run_limiter ::
  "failureLimiter option \<Rightarrow> (time \<times> limiter_op) list \<Rightarrow> failureLimiter option" where
  "run_limiter l [] = l"
| "run_limiter l ((now, op) # ops) = run_limiter (limiter_step l now op) ops"

fun answers_for :: "string \<Rightarrow> failureLimiter option \<Rightarrow> (time \<times> limiter_op) list \<Rightarrow> duration list" where
  "answers_for k l [] = []"
| "answers_for k l ((now, op) # ops) =
     (if op_key op = k then limiter_answer l now op else []) @ answers_for k (limiter_step l now op) ops"

text \<open>
  The specification for one client: its record alone, never cleaned up, driven by the client's
  own operations only.
\<close>

record lockout_policy =
  limit :: int
  span :: duration
  penalty :: duration

definition policy_of :: "failureLimiter \<Rightarrow> lockout_policy" where
  "policy_of l = \<lparr>limit = maxFailures l, span = window l, penalty = block l\<rparr>"

definition client_blocked :: "failureRecord option \<Rightarrow> time \<Rightarrow> bool" where
  "client_blocked r now \<longleftrightarrow>
     (case r of None \<Rightarrow> False | Some r \<Rightarrow> blockedUntil r \<noteq> 0 \<and> now < blockedUntil r)"

fun client_fail :: "lockout_policy \<Rightarrow> failureRecord option \<Rightarrow> time \<Rightarrow> failureRecord" where
  "client_fail p r now =
     (let n = (case r of None \<Rightarrow> 1
               | Some r \<Rightarrow> if windowStart r + span p \<le> now then 1 else failures r + 1);
          s = (case r of None \<Rightarrow> now
               | Some r \<Rightarrow> if windowStart r + span p \<le> now then now else windowStart r);
          b = (case r of None \<Rightarrow> 0
               | Some r \<Rightarrow> if windowStart r + span p \<le> now then 0 else blockedUntil r)
      in \<lparr>failures = n, windowStart = s, blockedUntil = (if limit p \<le> n then now + penalty p else b)\<rparr>)"

fun client_step ::
  "lockout_policy \<Rightarrow> failureRecord option \<Rightarrow> time \<Rightarrow> limiter_op \<Rightarrow> failureRecord option" where
  "client_step p r now (RetryAfter k) =
     (case r of None \<Rightarrow> None
      | Some r \<Rightarrow> if blockedUntil r \<noteq> 0 \<and> blockedUntil r \<le> now then None else Some r)"
| "client_step p r now (RecordFailure k) = Some (client_fail p r now)"
| "client_step p r now (Reset k) = None"

fun client_answer :: "failureRecord option \<Rightarrow> time \<Rightarrow> limiter_op \<Rightarrow> duration list" where
  "client_answer r now (RetryAfter k) =
     [if client_blocked r now then time_Sub (blockedUntil (the r)) now else 0]"
| "client_answer r now _ = []"

fun client_run ::
  "lockout_policy \<Rightarrow> failureRecord option \<Rightarrow> (time \<times> limiter_op) list \<Rightarrow> failureRecord option" where
  "client_run p r [] = r"
| "client_run p r ((now, op) # ops) = client_run p (client_step p r now op) ops"

fun client_answers ::
  "lockout_policy \<Rightarrow> failureRecord option \<Rightarrow> (time \<times> limiter_op) list \<Rightarrow> duration list" where
  "client_answers p r [] = []"
| "client_answers p r ((now, op) # ops) =
     client_answer r now op @ client_answers p (client_step p r now op) ops"

definition own_ops :: "string \<Rightarrow> (time \<times> limiter_op) list \<Rightarrow> (time \<times> limiter_op) list" where
  "own_ops k ops = filter (\<lambda>(_, op). op_key op = k) ops"

section \<open>Well-formedness\<close>

definition limiter_ok :: "failureLimiter option \<Rightarrow> bool" where
  "limiter_ok lo \<longleftrightarrow>
     (case lo of None \<Rightarrow> True
      | Some l \<Rightarrow> 0 < maxFailures l \<and> 0 < window l \<and> window l \<le> max_int64 \<and>
                 0 < block l \<and> block l \<le> max_int64)"

named_theorems limiter_defs

lemmas [limiter_defs] = time_Before_def time_After_def time_Add_def time_IsZero_def Let_def

lemma newFailureLimiter_ok:
  "win \<le> max_int64 \<Longrightarrow> blk \<le> max_int64 \<Longrightarrow> limiter_ok (newFailureLimiter maxF win blk)"
  by (simp add: newFailureLimiter_def limiter_ok_def)

lemma cleanup_frame [simp]:
  "maxFailures (cleanup l now) = maxFailures l" "window (cleanup l now) = window l"
  "block (cleanup l now) = block l" "policy_of (cleanup l now) = policy_of l"
  by (simp_all add: cleanup_def policy_of_def)

definition expired :: "duration \<Rightarrow> time \<Rightarrow> failureRecord \<Rightarrow> bool" where
  "expired w now r \<longleftrightarrow> windowStart r + w \<le> now \<and> blockedUntil r \<le> now"

lemma records_cleanup:
  "records (cleanup l now) key =
     (if now < nextCleanup l then records l key
      else case records l key of None \<Rightarrow> None
           | Some r \<Rightarrow> if expired (window l) now r then None else Some r)"
  by (auto simp: cleanup_def limiter_defs expired_def split: option.splits)

lemma limiter_step_ok: "limiter_ok l \<Longrightarrow> limiter_ok (limiter_step l now op)"
  by (cases op; cases l) (auto simp: limiter_ok_def Let_def split: option.splits)

section \<open>The limiter refines the per-client specification\<close>

text \<open>
  \<open>same_client now k l r\<close>: the limiter's entry for \<open>k\<close> is the record \<open>r\<close> of the
  specification, or it was cleaned up and the specification still holds a dead record.
\<close>

definition same_client :: "time \<Rightarrow> string \<Rightarrow> failureLimiter \<Rightarrow> failureRecord option \<Rightarrow> bool" where
  "same_client now k l r \<longleftrightarrow>
     records l k = r \<or> (records l k = None \<and> (\<exists>d. r = Some d \<and> expired (window l) now d))"

lemma same_client_mono: "same_client now k l r \<Longrightarrow> now \<le> now' \<Longrightarrow> same_client now' k l r"
  by (auto simp: same_client_def expired_def)

lemma same_client_cleanup: "same_client now k l r \<Longrightarrow> same_client now k (cleanup l now) r"
  by (auto simp: same_client_def records_cleanup split: option.splits)

lemma limiter_step_policy:
  "limiter_step (Some l) now op = Some l' \<Longrightarrow> policy_of l' = policy_of l \<and> window l' = window l"
  by (cases op) (auto simp: Let_def policy_of_def split: option.splits if_splits)

lemma limiter_step_Some: "\<exists>l'. limiter_step (Some l) now op = Some l'"
  by (cases op) (auto simp: Let_def split: option.splits)

lemma limiter_step_other:
  assumes "op_key op \<noteq> k" and "limiter_step (Some l) now op = Some l'"
  shows "records l' k = records l k \<or> records l' k = records (cleanup l now) k"
  using assms by (cases op) (auto simp: Let_def split: option.splits if_splits)

lemma recordFailure_own:
  assumes "limiter_ok (Some l)" and "same_client now k l r"
    and "recordFailure (Some l) now k = Some l'"
  shows "records l' k = Some (client_fail (policy_of l) r now)"
proof -
  let ?l = "cleanup l now"
  have w: "window l \<le> time_Sub now s \<longleftrightarrow> s + window l \<le> now" for s
    using assms(1) by (intro time_Sub_ge) (auto simp: limiter_ok_def min_int64_def)
  from same_client_cleanup [OF assms(2)]
  consider "records ?l k = r" | d where "records ?l k = None" "r = Some d" "expired (window l) now d"
    by (auto simp: same_client_def)
  then show ?thesis
  proof cases
    case 1
    then show ?thesis
      using assms(3) by (cases r) (auto simp: Let_def policy_of_def w time_Add_def)
  next
    case 2
    then show ?thesis
      using assms(3) by (auto simp: Let_def policy_of_def time_Add_def expired_def)
  qed
qed

lemma retryAfter_own:
  assumes "limiter_ok (Some l)" and "same_client now k l r"
    and "retryAfter (Some l) now k = (d, Some l')"
  shows "[d] = client_answer r now (RetryAfter k)"
    and "same_client now k l' (client_step (policy_of l) r now (RetryAfter k))"
proof -
  let ?l = "cleanup l now"
  from same_client_cleanup [OF assms(2)]
  consider (eq) "records ?l k = r" 
    | (dead) e where "records ?l k = None" "r = Some e" "expired (window l) now e"
    by (auto simp: same_client_def)
  then have "[d] = client_answer r now (RetryAfter k) \<and>
     same_client now k l' (client_step (policy_of l) r now (RetryAfter k))"
  proof cases
    case eq
    then show ?thesis
      using assms(3)
      by (cases r) (auto simp: Let_def client_blocked_def same_client_def limiter_defs split: if_splits)
  next
    case dead
    then show ?thesis
      using assms(3)
      by (auto simp: Let_def client_blocked_def same_client_def expired_def)
  qed
  then show "[d] = client_answer r now (RetryAfter k)"
    and "same_client now k l' (client_step (policy_of l) r now (RetryAfter k))" by blast+
qed

lemma limiter_step_own:
  assumes "limiter_ok (Some l)" and "same_client now k l r" and "op_key op = k"
    and "limiter_step (Some l) now op = Some l'"
  shows "limiter_answer (Some l) now op = client_answer r now op"
    and "same_client now k l' (client_step (policy_of l) r now op)"
proof -
  have "limiter_answer (Some l) now op = client_answer r now op \<and>
    same_client now k l' (client_step (policy_of l) r now op)"
  proof (cases op)
    case (RetryAfter k')
    obtain d lo where "retryAfter (Some l) now k = (d, lo)" by fastforce
    with RetryAfter assms have "retryAfter (Some l) now k = (d, Some l')" by simp
    from retryAfter_own [OF assms(1,2) this] this RetryAfter assms(3) show ?thesis by simp
  next
    case (RecordFailure k')
    then show ?thesis
      using recordFailure_own [OF assms(1,2), of l'] assms(3,4) by (simp add: same_client_def)
  next
    case (Reset k')
    then show ?thesis using assms by (auto simp: same_client_def)
  qed
  then show "limiter_answer (Some l) now op = client_answer r now op"
    and "same_client now k l' (client_step (policy_of l) r now op)" by blast+
qed

lemma run_limiter_simulates:
  assumes "limiter_ok (Some l)" and "same_client t0 k l r"
    and "sorted (t0 # map fst ops)"
  shows "answers_for k (Some l) ops = client_answers (policy_of l) r (own_ops k ops)"
  using assms
proof (induction ops arbitrary: l r t0)
  case Nil
  show ?case by (simp add: own_ops_def)
next
  case (Cons o1 ops)
  obtain now op where o1: "o1 = (now, op)" by (cases o1)
  obtain l' where l': "limiter_step (Some l) now op = Some l'"
    using limiter_step_Some by blast
  have ok': "limiter_ok (Some l')"
    using limiter_step_ok [OF Cons.prems(1), of now op] l' by simp
  have pol: "policy_of l' = policy_of l" "window l' = window l"
    using limiter_step_policy [OF l'] by auto
  have rel: "same_client now k l r"
    using Cons.prems(2,3) o1 by (auto intro: same_client_mono)
  have srt: "sorted (now # map fst ops)" using Cons.prems(3) o1 by simp
  show ?case
  proof (cases "op_key op = k")
    case True
    note own = limiter_step_own [OF Cons.prems(1) rel True l']
    show ?thesis
      using Cons.IH [OF ok' own(2) srt] own(1) True
      by (simp add: o1 l' pol own_ops_def)
  next
    case False
    have "same_client now k l' r"
      using limiter_step_other [OF False l'] rel same_client_cleanup [OF rel] pol(2)
      by (auto simp: same_client_def)
    from Cons.IH [OF ok' this srt] False show ?thesis
      by (simp add: o1 l' pol own_ops_def)
  qed
qed

corollary run_limiter_key:
  assumes "limiter_ok (Some l)" and "sorted (map fst ops)"
  shows "answers_for k (Some l) ops = client_answers (policy_of l) (records l k) (own_ops k ops)"
proof (cases ops)
  case Nil
  then show ?thesis by (simp add: own_ops_def)
next
  case (Cons o1 rest)
  with assms(2) have "sorted (fst o1 # map fst ops)" by simp
  then show ?thesis
    by (intro run_limiter_simulates [OF assms(1)]) (auto simp: same_client_def)
qed

section \<open>When a client is blocked\<close>

lemma client_answers_append:
  "client_answers p r (xs @ ys) = client_answers p r xs @ client_answers p (client_run p r xs) ys"
  by (induction p r xs rule: client_run.induct) auto

definition failure_count :: "(time \<times> limiter_op) list \<Rightarrow> nat" where
  "failure_count ops = length (filter (\<lambda>(_, op). \<exists>k. op = RecordFailure k) ops)"

lemma client_answers_below_limit:
  assumes "case r of None \<Rightarrow> n = 0 | Some r \<Rightarrow> failures r \<le> int n \<and> blockedUntil r = 0"
    and "int (n + failure_count ops) < limit p" 
  shows "set (client_answers p r ops) \<subseteq> {0}"
  using assms
proof (induction ops arbitrary: r n)
  case (Cons o1 ops)
  obtain now op where o1: "o1 = (now, op)" by (cases o1)
  show ?case
  proof (cases op)
    case (RetryAfter k)
    have "client_step p r now op = r"
      using Cons.prems(1) RetryAfter by (auto split: option.splits)
    with Cons.IH [of n r] Cons.prems RetryAfter o1 show ?thesis
      by (auto simp: failure_count_def client_blocked_def split: option.splits)
  next
    case (RecordFailure k)
    let ?r = "client_fail p r now"
    have le: "int (Suc n + failure_count ops) < limit p"
      using Cons.prems(2) o1 RecordFailure by (simp add: failure_count_def)
    then have "failures ?r \<le> int (Suc n) \<and> blockedUntil ?r = 0"
      using Cons.prems(1) by (auto simp: Let_def split: option.splits)
    with Cons.IH [of "Suc n" "Some ?r"] le o1 RecordFailure show ?thesis by simp
  next
    case (Reset k)
    with Cons.IH [of 0 None] Cons.prems(2) o1 show ?thesis
      by (simp add: failure_count_def)
  qed
qed simp


definition counting :: "lockout_policy \<Rightarrow> time \<Rightarrow> nat \<Rightarrow> failureRecord option \<Rightarrow> bool" where
  "counting p now n r \<longleftrightarrow>
     (case r of None \<Rightarrow> n = 0
      | Some r \<Rightarrow> failures r = int n \<and> 0 < n \<and> blockedUntil r = 0 \<and> now < windowStart r + span p)"

text \<open>No login succeeded, and a failure is less than one window old at \<open>t1\<close>; queries may come at any time.\<close>

fun in_window :: "lockout_policy \<Rightarrow> time \<Rightarrow> time \<Rightarrow> limiter_op \<Rightarrow> bool" where
  "in_window p t1 t (RetryAfter k) \<longleftrightarrow> True"
| "in_window p t1 t (RecordFailure k) \<longleftrightarrow> t \<le> t1 \<and> t1 < t + span p"
| "in_window p t1 t (Reset k) \<longleftrightarrow> False"

lemma client_run_counting:
  assumes "counting p t1 n r"
    and "int (n + failure_count ops) < limit p"
    and "\<forall>(t, op) \<in> set ops. in_window p t1 t op"
  shows "counting p t1 (n + failure_count ops) (client_run p r ops)"
  using assms
proof (induction ops arbitrary: r n)
  case Nil
  then show ?case by (simp add: failure_count_def)
next
  case (Cons o1 ops)
  obtain now op where o1: "o1 = (now, op)" by (cases o1)
  have rest: "\<forall>(t, op) \<in> set ops. in_window p t1 t op"
    using Cons.prems(3) by simp
  show ?case
  proof (cases op)
    case (RetryAfter k)
    have "client_step p r now op = r"
      using Cons.prems(1) RetryAfter by (auto simp: counting_def split: option.splits)
    with Cons.IH [OF Cons.prems(1) _ rest] Cons.prems(2) RetryAfter o1 show ?thesis
      by (simp add: failure_count_def)
  next
    case (RecordFailure k)
    let ?r = "client_fail p r now"
    have cnt: "failure_count (o1 # ops) = Suc (failure_count ops)"
      using o1 RecordFailure by (simp add: failure_count_def)
    have "counting p t1 (Suc n) (Some ?r)"
      using Cons.prems o1 cnt RecordFailure by (auto simp: counting_def Let_def split: option.splits)
    from Cons.IH [OF this _ rest] Cons.prems(2) cnt show ?thesis
      by (simp add: o1 RecordFailure)
  next
    case (Reset k)
    with Cons.prems(3) o1 show ?thesis by simp
  qed
qed

lemma counting_last_failure:
  assumes "counting p t1 n r" and "limit p \<le> int (Suc n)"
  shows "blockedUntil (client_fail p r t1) = t1 + penalty p"
  using assms by (auto simp: counting_def Let_def split: option.splits)

lemma client_run_queries:
  assumes "\<forall>(s, op) \<in> set post. s \<le> t \<and> (\<exists>k. op = RetryAfter k)" and "blockedUntil r \<noteq> 0"
  shows "client_run p (Some r) post = Some r \<or> client_run p (Some r) post = None \<and> blockedUntil r \<le> t"
  using assms(1)
proof (induction post)
  case (Cons q post)
  have none: "client_run p None ops = None" if "\<forall>(s, op) \<in> set ops. s \<le> t \<and> (\<exists>k. op = RetryAfter k)" for ops
    using that by (induction ops) auto
  obtain s k where q: "q = (s, RetryAfter k)" "s \<le> t" using Cons.prems by auto
  with Cons none show ?case by auto
qed simp

lemma client_lockout:
  assumes "failure_count pre + 1 = nat (limit p)" and "\<forall>(s, op) \<in> set pre. in_window p t1 s op"
    and "\<forall>(s, op) \<in> set post. s \<le> t \<and> (\<exists>k. op = RetryAfter k)"
    and "0 \<le> t1" and "0 < penalty p" and "t1 \<le> t" and "penalty p \<le> max_int64"
  shows "last (client_answers p None (pre @ (t1, RecordFailure k) # post @ [(t, RetryAfter k)]))
           = (if t < t1 + penalty p then t1 + penalty p - t else 0)"
proof -
  let ?r = "client_fail p (client_run p None pre) t1"
  have "counting p t1 (failure_count pre) (client_run p None pre)"
    using client_run_counting [of p t1 0 None pre] assms(1,2) by (simp add: counting_def)
  then have b: "blockedUntil ?r = t1 + penalty p"
    using assms(1) by (intro counting_last_failure) auto
  have sub: "t < t1 + penalty p \<Longrightarrow> time_Sub (t1 + penalty p) t = t1 + penalty p - t"
    using assms by (auto simp: time_Sub_def min_int64_def)
  have "client_run p (Some ?r) post = Some ?r \<or> client_run p (Some ?r) post = None \<and> t1 + penalty p \<le> t"
    using client_run_queries [OF assms(3), of ?r p] b assms(4,5) by simp
  then show ?thesis
    using b sub assms(4,5) by (auto simp: client_answers_append client_blocked_def simp del: client_fail.simps)
qed

lemma answers_for_append:
  "answers_for k l (xs @ ys) = answers_for k l xs @ answers_for k (run_limiter l xs) ys"
  by (induction k l xs rule: answers_for.induct) auto

section \<open>Stale records\<close>

definition expiry :: "duration \<Rightarrow> failureRecord \<Rightarrow> time" where
  "expiry w r = max (windowStart r + w) (blockedUntil r)"

definition swept :: "time \<Rightarrow> failureLimiter \<Rightarrow> bool" where
  "swept now l \<longleftrightarrow> 0 < window l \<and> nextCleanup l \<le> now + window l \<and>
     (\<forall>k r. records l k = Some r \<longrightarrow> nextCleanup l < expiry (window l) r + window l)"

lemma swept_cleanup: "swept t l \<Longrightarrow> t \<le> now \<Longrightarrow> swept now (cleanup l now) \<and> now < nextCleanup (cleanup l now)"
  by (auto simp: swept_def cleanup_def limiter_defs expiry_def split: option.splits if_splits)

lemma swept_upd:
  "swept now l \<Longrightarrow> now < expiry (window l) r \<Longrightarrow> swept now (l\<lparr>records := (records l)(k \<mapsto> r)\<rparr>)"
  "swept now l \<Longrightarrow> swept now (l\<lparr>records := (records l)(k := None)\<rparr>)"
  by (auto simp: swept_def)

lemma swept_step:
  assumes "swept t l" and "t \<le> now" and "limiter_ok (Some l)" and "limiter_step (Some l) now op = Some l'"
  shows "swept now l'" and "(\<forall>k. op \<noteq> Reset k) \<Longrightarrow> now < nextCleanup l'"
proof -
  let ?l = "cleanup l now"
  have c: "swept now ?l" "now < nextCleanup ?l"
    using swept_cleanup [OF assms(1,2)] by auto
  have "swept now l' \<and> ((\<forall>k. op \<noteq> Reset k) \<longrightarrow> now < nextCleanup l')"
  proof (cases op)
    case (RetryAfter k)
    then show ?thesis
      using assms(4) c swept_upd(2) [OF c(1)] by (auto simp: Let_def split: option.splits if_splits)
  next
    case (RecordFailure k)
    have w: "window l \<le> time_Sub now s \<longleftrightarrow> s + window l \<le> now" for s
      using assms(3) by (intro time_Sub_ge) (auto simp: limiter_ok_def min_int64_def)
    have "\<exists>r. l' = ?l\<lparr>records := (records ?l)(k \<mapsto> r)\<rparr> \<and> now < windowStart r + window l"
      using assms(3,4) RecordFailure
      by (auto simp: Let_def w limiter_ok_def not_le split: option.splits if_splits)
    then obtain r where r: "l' = ?l\<lparr>records := (records ?l)(k \<mapsto> r)\<rparr>" "now < windowStart r + window l"
      by blast
    then have "swept now l'"
      using swept_upd(1) [OF c(1), of r k] by (simp add: expiry_def)
    with r c(2) show ?thesis by simp
  next
    case (Reset k)
    have "swept now l" using assms(1,2) by (auto simp: swept_def)
    with Reset assms(4) show ?thesis by (auto intro: swept_upd(2))
  qed
  then show "swept now l'" and "(\<forall>k. op \<noteq> Reset k) \<Longrightarrow> now < nextCleanup l'" by auto
qed

lemma run_limiter_swept:
  assumes "swept t0 l" and "limiter_ok (Some l)" and "sorted (t0 # map fst ops)"
  shows "\<exists>l'. run_limiter (Some l) ops = Some l' \<and> swept (last (t0 # map fst ops)) l' \<and> limiter_ok (Some l')"
  using assms
proof (induction ops arbitrary: l t0)
  case (Cons o1 ops)
  obtain now op where o1: "o1 = (now, op)" by (cases o1)
  obtain l' where l': "limiter_step (Some l) now op = Some l'"
    using limiter_step_Some by blast
  have "t0 \<le> now" using Cons.prems(3) o1 by simp
  from swept_step(1) [OF Cons.prems(1) this Cons.prems(2) l'] have "swept now l'" .
  moreover have "limiter_ok (Some l')"
    using limiter_step_ok [OF Cons.prems(2), of now op] l' by simp
  moreover have "sorted (now # map fst ops)" using Cons.prems(3) o1 by simp
  ultimately show ?case using Cons.IH [of now l'] l' o1 by simp
qed simp

lemma run_limiter_append: "run_limiter l (xs @ ys) = run_limiter (run_limiter l xs) ys"
  by (induction l xs rule: run_limiter.induct) auto

lemma run_limiter_window: "run_limiter (Some l) ops = Some l' \<Longrightarrow> window l' = window l"
proof (induction ops arbitrary: l)
  case (Cons o1 ops)
  obtain now op where o1: "o1 = (now, op)" by (cases o1)
  obtain l1 where l1: "limiter_step (Some l) now op = Some l1"
    using limiter_step_Some by blast
  with Cons limiter_step_policy [OF l1] show ?case by (simp add: o1)
qed simp

section \<open>The contract of an attempt limiter\<close>

text \<open>
  What a client of the limiter relies on: \<open>until l k\<close> is the instant up to which \<open>k\<close> is
  blocked, and only an operation on \<open>k\<close> itself changes whether \<open>k\<close> is blocked from now on.
\<close>

locale attempt_limiter =
  fixes retry :: "'l \<Rightarrow> time \<Rightarrow> string \<Rightarrow> duration \<times> 'l"
    and fail :: "'l \<Rightarrow> time \<Rightarrow> string \<Rightarrow> 'l"
    and clear :: "'l \<Rightarrow> string \<Rightarrow> 'l"
    and until :: "'l \<Rightarrow> string \<Rightarrow> time"
  assumes retry_pos: "0 \<le> now \<Longrightarrow> 0 < fst (retry l now k) \<longleftrightarrow> now < until l k"
    and retry_nonneg: "0 \<le> fst (retry l now k)"
    and until_retry: "0 \<le> now \<Longrightarrow> now \<le> t \<Longrightarrow> t < until (snd (retry l now k')) k \<longleftrightarrow> t < until l k"
    and until_fail: "k' \<noteq> k \<Longrightarrow> 0 \<le> now \<Longrightarrow> now \<le> t \<Longrightarrow> t < until (fail l now k') k \<longleftrightarrow> t < until l k"
    and until_clear: "t < until (clear l k') k \<longleftrightarrow> k' \<noteq> k \<and> t < until l k \<or> k' = k \<and> t < 0"
begin

fun apply_op :: "'l \<Rightarrow> time \<times> limiter_op \<Rightarrow> 'l" where
  "apply_op l (now, RetryAfter k) = snd (retry l now k)"
| "apply_op l (now, RecordFailure k) = fail l now k"
| "apply_op l (now, Reset k) = clear l k"

lemma apply_op_other:
  "op_key op \<noteq> k \<Longrightarrow> 0 \<le> now \<Longrightarrow> now \<le> t \<Longrightarrow> t < until (apply_op l (now, op)) k \<longleftrightarrow> t < until l k"
  by (cases op) (simp_all add: until_retry until_fail until_clear)

lemma others_keep_blocked:
  assumes "\<forall>(s, op) \<in> set ops. op_key op \<noteq> k \<and> 0 \<le> s \<and> s \<le> now"
  shows "now < until (foldl apply_op l ops) k \<longleftrightarrow> now < until l k"
  using assms by (induction ops arbitrary: l) (auto simp: apply_op_other)

lemma others_keep_answer:
  assumes "\<forall>(s, op) \<in> set ops. op_key op \<noteq> k \<and> 0 \<le> s \<and> s \<le> now" and "0 \<le> now"
  shows "0 < fst (retry (foldl apply_op l ops) now k) \<longleftrightarrow> 0 < fst (retry l now k)"
  using others_keep_blocked [OF assms(1)] by (simp add: retry_pos assms(2))

lemma cleared_not_blocked: "0 \<le> now \<Longrightarrow> fst (retry (clear l k) now k) = 0"
  using retry_pos [of now "clear l k" k] until_clear [of now l k k] retry_nonneg [of "clear l k" now k]
  by auto

end

definition blocked_until :: "failureLimiter option \<Rightarrow> string \<Rightarrow> time" where
  "blocked_until lo k =
     (case lo of None \<Rightarrow> 0
      | Some l \<Rightarrow> (case records l k of None \<Rightarrow> 0 | Some r \<Rightarrow> blockedUntil r))"

lemma blocked_until_cleanup:
  "0 \<le> now \<Longrightarrow> now \<le> t \<Longrightarrow> t < blocked_until (Some (cleanup l now)) k \<longleftrightarrow> t < blocked_until (Some l) k"
  by (auto simp: blocked_until_def records_cleanup expired_def split: option.splits)

lemma blocked_until_Some [simp]:
  "blocked_until (Some (l\<lparr>records := (records l)(k' := None)\<rparr>)) k =
     (if k' = k then 0 else blocked_until (Some l) k)"
  "blocked_until (Some (l\<lparr>records := (records l)(k' \<mapsto> r)\<rparr>)) k =
     (if k' = k then blockedUntil r else blocked_until (Some l) k)"
  by (simp_all add: blocked_until_def)

lemma retryAfter_result:
  assumes "0 \<le> now"
  shows "fst (retryAfter lo now k) =
     (if now < blocked_until lo k then min max_int64 (blocked_until lo k - now) else 0)"
proof (cases lo)
  case (Some l)
  have "now < blocked_until (Some (cleanup l now)) k \<longleftrightarrow> now < blocked_until (Some l) k"
    using assms by (intro blocked_until_cleanup) auto
  then show ?thesis
    using assms Some
    by (auto simp: Let_def blocked_until_def limiter_defs time_Sub_pos records_cleanup
        split: option.splits if_splits)
qed (use assms in \<open>simp add: blocked_until_def\<close>)

lemma blocked_until_retryAfter:
  assumes "0 \<le> now" and "now \<le> t"
  shows "t < blocked_until (snd (retryAfter lo now k')) k \<longleftrightarrow> t < blocked_until lo k"
proof (cases lo)
  case (Some l)
  note c = blocked_until_cleanup [OF assms]
  have dead: "\<not> t < blocked_until (Some (cleanup l now)) k"
    if "records (cleanup l now) k = Some r" and "blockedUntil r \<le> now" for r
    using that assms(2) by (simp add: blocked_until_def)
  show ?thesis
    using assms c dead Some
    by (auto simp: Let_def limiter_defs not_less split: option.splits)
qed simp

lemma blocked_until_recordFailure_other:
  assumes "k' \<noteq> k" and "0 \<le> now" and "now \<le> t"
  shows "t < blocked_until (recordFailure lo now k') k \<longleftrightarrow> t < blocked_until lo k"
  using assms by (cases lo) (auto simp: Let_def blocked_until_cleanup)

lemma blocked_until_reset:
  "t < blocked_until (reset lo k') k \<longleftrightarrow> k' \<noteq> k \<and> t < blocked_until lo k \<or> k' = k \<and> t < 0"
  by (cases lo) (auto simp: blocked_until_def)

interpretation fl: attempt_limiter retryAfter recordFailure reset blocked_until
proof unfold_locales
  fix now t :: time and l and k k' :: string
  show "0 \<le> now \<Longrightarrow> 0 < fst (retryAfter l now k) \<longleftrightarrow> now < blocked_until l k"
    by (simp add: retryAfter_result max_int64_def)
  show "0 \<le> fst (retryAfter l now k)"
    by (cases l) (auto simp: Let_def limiter_defs time_Sub_def max_int64_def min_int64_def split: option.splits)
qed (simp_all add: blocked_until_retryAfter blocked_until_recordFailure_other blocked_until_reset)

lemma limiter_step_apply_op: "limiter_step l now op = fl.apply_op l (now, op)"
  by (cases op) simp_all

section \<open>Properties\<close>

definition demo_limiter :: failureLimiter where
  "demo_limiter = \<lparr>maxFailures = 2, window = 10, block = 30, records = Map.empty, nextCleanup = 0\<rparr>"

definition demo_history :: "(time \<times> limiter_op) list" where
  "demo_history =
     [(100, RecordFailure ''a''), (101, RetryAfter ''a''), (102, RecordFailure ''b''),
      (105, RecordFailure ''a'')]"

lemma demo_limiter_new: "newFailureLimiter 2 10 30 = Some demo_limiter"
  by (simp add: newFailureLimiter_def demo_limiter_def)

text \<open>
  C9: For every history of a new limiter with a clock that does not go back, the answers a client
  gets from \<^verbatim>\<open>retryAfter\<close> are those of its own record driven by its own operations: the
  periodic cleanup and the operations of all other clients are invisible.
\<close>

theorem limiter_refines_client:
  assumes "newFailureLimiter maxF win blk = Some l" and "win \<le> max_int64" and "blk \<le> max_int64"
    and "sorted (map fst ops)"
  shows "answers_for k (Some l) ops =
           client_answers \<lparr>limit = maxF, span = win, penalty = blk\<rparr> None (own_ops k ops)"
proof -
  have "limiter_ok (Some l)"
    using newFailureLimiter_ok [OF assms(2,3), of maxF] assms(1) by simp
  from run_limiter_key [OF this assms(4), of k] assms(1) show ?thesis
    by (auto simp: newFailureLimiter_def policy_of_def split: if_splits)
qed

theorem limiter_refines_client_witness:
  "answers_for ''a'' (Some demo_limiter) (demo_history @ [(106, RetryAfter ''b''), (120, RetryAfter ''a'')])
     = [0, 15]"
  using limiter_refines_client [OF demo_limiter_new, of "demo_history @ [(106, RetryAfter ''b''), (120, RetryAfter ''a'')]" "''a''"]
  by (simp add: own_ops_def demo_history_def client_blocked_def time_Sub_def min_int64_def max_int64_def)

text \<open>
  C33: A client without a record whose \<^verbatim>\<open>maxFailures\<close> failures all fall within one window, with
  no successful login in between, is blocked from the last of them, at \<open>t1\<close>, until exactly
  \<open>t1 + block\<close>, whatever other clients do and however often it asks meanwhile:
  \<^verbatim>\<open>retryAfter\<close> returns the time that is left, and 0 from \<open>t1 + block\<close> on.  (The window
  starts at the first failure; failures spread over two windows need not block.)
\<close>

theorem lockout:
  assumes "limiter_ok (Some l)" and "records l k = None"
    and "sorted (map fst (ops @ [(t, RetryAfter k)]))"
    and "own_ops k ops = pre @ (t1, RecordFailure k) # post"
    and "failure_count pre + 1 = nat (maxFailures l)"
    and "\<forall>(s, op) \<in> set pre. op \<noteq> Reset k \<and> (op = RecordFailure k \<longrightarrow> t1 < s + window l)"
    and "\<forall>(s, op) \<in> set post. op = RetryAfter k" and "0 \<le> t1"
  shows "last (answers_for k (Some l) (ops @ [(t, RetryAfter k)])) = (if t < t1 + block l then t1 + block l - t else 0)"
proof -
  have own: "own_ops k (ops @ [(t, RetryAfter k)]) = pre @ (t1, RecordFailure k) # post @ [(t, RetryAfter k)]"
    using assms(4) by (simp add: own_ops_def)
  have srt: "sorted (map fst (own_ops k (ops @ [(t, RetryAfter k)])))"
    unfolding own_ops_def by (rule sorted_filter [OF assms(3)])
  have key: "op_key op = k" if "(s, op) \<in> set pre" for s op
  proof -
    have "(s, op) \<in> set (own_ops k ops)" using that by (simp add: assms(4))
    then show ?thesis by (simp add: own_ops_def)
  qed
  have "in_window (policy_of l) t1 s op" if "(s, op) \<in> set pre" for s op
    using key [OF that] that srt assms(6) by (cases op) (auto simp: own sorted_append policy_of_def)
  moreover have "\<forall>(s, op) \<in> set post. s \<le> t \<and> (\<exists>k. op = RetryAfter k)" "t1 \<le> t"
    using srt assms(7) by (auto simp: own sorted_append)
  ultimately have "last (client_answers (policy_of l) None (pre @ (t1, RecordFailure k) # post @ [(t, RetryAfter k)]))
      = (if t < t1 + penalty (policy_of l) then t1 + penalty (policy_of l) - t else 0)"
    using assms(1,5,8) by (intro client_lockout) (auto simp: policy_of_def limiter_ok_def)
  then show ?thesis
    unfolding run_limiter_key [OF assms(1,3)] own assms(2) policy_of_def lockout_policy.simps .
qed

theorem lockout_witness:
  "last (answers_for ''a'' (Some demo_limiter) (demo_history @ [(110, RetryAfter ''a''), (120, RetryAfter ''a'')])) = 15 \<and>
   last (answers_for ''a'' (Some demo_limiter) (demo_history @ [(110, RetryAfter ''a''), (135, RetryAfter ''a'')])) = 0"
  using lockout [of demo_limiter "''a''" "demo_history @ [(110, RetryAfter ''a'')]" 120
      "[(100, RecordFailure ''a''), (101, RetryAfter ''a'')]" 105 "[(110, RetryAfter ''a'')]"]
    lockout [of demo_limiter "''a''" "demo_history @ [(110, RetryAfter ''a'')]" 135
      "[(100, RecordFailure ''a''), (101, RetryAfter ''a'')]" 105 "[(110, RetryAfter ''a'')]"]
  by (simp add: limiter_ok_def demo_limiter_def demo_history_def own_ops_def failure_count_def max_int64_def)

text \<open>
  A client with fewer than \<^verbatim>\<open>maxFailures\<close> failures in a history of a new limiter is never
  told to wait, at whatever instants it asks.
\<close>

theorem no_premature_lockout:
  assumes "newFailureLimiter maxF win blk = Some l" and "win \<le> max_int64" and "blk \<le> max_int64"
    and "sorted (map fst ops)" and "int (failure_count (own_ops k ops)) < maxF"
  shows "set (answers_for k (Some l) ops) \<subseteq> {0}"
proof -
  have ok: "limiter_ok (Some l)" and r: "records l k = None" and p: "limit (policy_of l) = maxF"
    using newFailureLimiter_ok [OF assms(2,3), of maxF] assms(1)
    by (auto simp: newFailureLimiter_def policy_of_def split: if_splits)
  show ?thesis
    unfolding run_limiter_key [OF ok assms(4)] r
    using assms(5) by (intro client_answers_below_limit [of 0]) (simp_all add: p)
qed

theorem no_premature_lockout_witness:
  "set (answers_for ''b'' (Some demo_limiter) (demo_history @ [(106, RetryAfter ''b'')])) \<subseteq> {0}"
  using no_premature_lockout [OF demo_limiter_new, of "demo_history @ [(106, RetryAfter ''b'')]" "''b''"]
  by (simp add: own_ops_def demo_history_def failure_count_def max_int64_def)

text \<open>
  The table does not keep dead entries: after any \<^verbatim>\<open>retryAfter\<close> or \<^verbatim>\<open>recordFailure\<close> at
  \<open>now\<close>, every stored record expired less than one window before \<open>now\<close>, or is still live.
\<close>

theorem stale_records_dropped:
  assumes "newFailureLimiter maxF win blk = Some l0" and "win \<le> max_int64" and "blk \<le> max_int64"
    and "sorted (0 # map fst (ops @ [(now, op)]))" and "\<forall>k. op \<noteq> Reset k"
    and "run_limiter (Some l0) (ops @ [(now, op)]) = Some l" and "records l k = Some r"
  shows "now < expiry win r + win"
proof -
  have ok: "limiter_ok (Some l0)"
    using newFailureLimiter_ok [OF assms(2,3), of maxF] assms(1) by simp
  have "swept 0 l0" and w: "window l0 = win"
    using assms(1) by (auto simp: newFailureLimiter_def swept_def split: if_splits)
  with ok assms(4) obtain l1 where l1: "run_limiter (Some l0) ops = Some l1"
    "swept (last (0 # map fst ops)) l1" "limiter_ok (Some l1)"
    using run_limiter_swept [of 0 l0 ops] by (auto simp: sorted_append)
  have st: "limiter_step (Some l1) now op = Some l"
    using assms(6) l1(1) by (simp add: run_limiter_append)
  have "last (0 # map fst ops) \<le> now"
    using assms(4) by (cases ops rule: rev_cases) (auto simp: sorted_append)
  from swept_step [OF l1(2) this l1(3) st] assms(5) have "swept now l" "now < nextCleanup l" by auto
  moreover have "window l = win"
    using run_limiter_window [of l0 "ops @ [(now, op)]" l] assms(6) w by simp
  ultimately show ?thesis using assms(7) by (force simp: swept_def)
qed

theorem stale_records_dropped_witness:
  "\<exists>l r. run_limiter (Some demo_limiter) (demo_history @ [(120, RetryAfter ''a'')]) = Some l \<and>
         records l ''a'' = Some r \<and> 120 < expiry 10 r + 10 \<and> records l ''b'' = None"
proof -
  have run: "run_limiter (Some demo_limiter) (demo_history @ [(120, RetryAfter ''a'')]) =
    Some (demo_limiter\<lparr>records := [''a'' \<mapsto> \<lparr>failures = 2, windowStart = 100, blockedUntil = 135\<rparr>],
                       nextCleanup := 130\<rparr>)"
    by (auto simp: demo_limiter_def demo_history_def cleanup_def limiter_defs time_Sub_def
        min_int64_def max_int64_def fun_eq_iff)
  have "120 < expiry 10 \<lparr>failures = 2, windowStart = 100, blockedUntil = 135\<rparr> + 10"
    by (rule stale_records_dropped [OF demo_limiter_new _ _ _ _ run, where k = "''a''"])
      (simp_all add: max_int64_def demo_history_def)
  with run show ?thesis by simp
qed

text \<open>
  Operations on other clients' keys, at instants up to now, never change whether a client is
  blocked now, and a successful login of the client itself always ends its block.
\<close>

theorem limiter_isolation:
  assumes "\<forall>(s, op) \<in> set ops. op_key op \<noteq> k \<and> 0 \<le> s \<and> s \<le> now" and "0 \<le> now"
  shows "(0 < fst (retryAfter (run_limiter l ops) now k) \<longleftrightarrow> 0 < fst (retryAfter l now k)) \<and>
         fst (retryAfter (reset l k) now k) = 0"
proof
  have "run_limiter l ops = foldl fl.apply_op l ops"
    by (induction l ops rule: run_limiter.induct) (auto simp: limiter_step_apply_op)
  then show "0 < fst (retryAfter (run_limiter l ops) now k) \<longleftrightarrow> 0 < fst (retryAfter l now k)"
    using fl.others_keep_answer [OF assms] by simp
  show "fst (retryAfter (reset l k) now k) = 0"
    by (rule fl.cleared_not_blocked [OF assms(2)])
qed

theorem limiter_isolation_witness:
  "(0 < fst (retryAfter (run_limiter (run_limiter (Some demo_limiter) demo_history)
        [(107, RecordFailure ''b''), (108, Reset ''b'')]) 110 ''a''))
   \<and> fst (retryAfter (reset (run_limiter (Some demo_limiter) demo_history) ''a'') 110 ''a'') = 0"
proof -
  have b: "0 < fst (retryAfter (run_limiter (Some demo_limiter) demo_history) 110 ''a'')"
    by (simp add: demo_limiter_def demo_history_def cleanup_def limiter_defs time_Sub_def
        min_int64_def max_int64_def)
  have ops: "\<forall>(s, op) \<in> set [(107, RecordFailure ''b''), (108, Reset ''b'')].
      op_key op \<noteq> ''a'' \<and> 0 \<le> s \<and> s \<le> (110::int)" by simp
  show ?thesis
    using limiter_isolation [OF ops, of "run_limiter (Some demo_limiter) demo_history"] b by simp
qed

end
