(* ===== verification/Base64.thy ===== *)
theory Base64
  imports Go_Prelude
begin

text \<open>
  \<^verbatim>\<open>base64.StdEncoding\<close>: \<^verbatim>\<open>EncodeToString\<close>, used to build the credentials sent to an upstream
  proxy, and \<^verbatim>\<open>DecodeString\<close>, used to read a client's credentials, with the round trip.
  The decoder ignores carriage returns and line feeds, wants padding, and does not check the
  unused bits of the last quantum, as the Go decoder.
\<close>

definition b64_char :: "nat \<Rightarrow> char" where
  "b64_char n =
     (if n < 26 then char_of (65 + n) else if n < 52 then char_of (71 + n)
      else if n < 62 then char_of (n - 4) else if n = 62 then CHR ''+'' else CHR ''/'')"

definition b64_val :: "char \<Rightarrow> nat option" where
  "b64_val c =
     (let n = byte_of c in
      if 65 \<le> n \<and> n \<le> 90 then Some (n - 65) else if 97 \<le> n \<and> n \<le> 122 then Some (n - 71)
      else if 48 \<le> n \<and> n \<le> 57 then Some (n + 4) else if n = 43 then Some 62
      else if n = 47 then Some 63 else None)"

fun EncodeToString :: "string \<Rightarrow> string" where
  "EncodeToString [] = []"
| "EncodeToString [a] =
     (let x = byte_of a in [b64_char (x div 4), b64_char (x mod 4 * 16), CHR ''='', CHR ''=''])"
| "EncodeToString [a, b] =
     (let x = byte_of a; y = byte_of b in
      [b64_char (x div 4), b64_char (x mod 4 * 16 + y div 16), b64_char (y mod 16 * 4), CHR ''=''])"
| "EncodeToString (a # b # c # s) =
     (let x = byte_of a; y = byte_of b; z = byte_of c in
      b64_char (x div 4) # b64_char (x mod 4 * 16 + y div 16) #
      b64_char (y mod 16 * 4 + z div 64) # b64_char (z mod 64) # EncodeToString s)"

fun decode_quanta :: "string \<Rightarrow> string option" where
  "decode_quanta [] = Some []"
| "decode_quanta (a # b # c # d # s) =
     (case (b64_val a, b64_val b) of
        (Some x, Some y) \<Rightarrow>
          if c = CHR ''='' then
            (if d = CHR ''='' \<and> s = [] then Some [char_of (x * 4 + y div 16)] else None)
          else (case b64_val c of None \<Rightarrow> None
            | Some z \<Rightarrow>
                if d = CHR ''='' then
                  (if s = [] then Some [char_of (x * 4 + y div 16), char_of (y mod 16 * 16 + z div 4)] else None)
                else (case b64_val d of None \<Rightarrow> None
                  | Some v \<Rightarrow>
                      map_option (\<lambda>r. char_of (x * 4 + y div 16) # char_of (y mod 16 * 16 + z div 4) #
                                       char_of (z mod 4 * 64 + v) # r) (decode_quanta s)))
      | _ \<Rightarrow> None)"
| "decode_quanta _ = None"

definition DecodeString :: "string \<Rightarrow> string option" where
  "DecodeString s = decode_quanta (filter (\<lambda>c. byte_of c \<noteq> 10 \<and> byte_of c \<noteq> 13) s)"

lemma b64_val_char [simp]: "n < 64 \<Longrightarrow> b64_val (b64_char n) = Some n"
  by (auto simp: b64_val_def b64_char_def Let_def)

lemma b64_val_pad [simp]: "b64_val CHR ''='' = None"
  by (simp add: b64_val_def)

lemma b64_val_newline: "b64_val c = Some n \<Longrightarrow> byte_of c \<noteq> (10::nat) \<and> byte_of c \<noteq> (13::nat)"
  by (auto simp: b64_val_def Let_def split: if_splits)

lemma b64_char_no_pad [simp]:
  assumes "n < 64"
  shows "b64_char n \<noteq> CHR ''=''"
  using b64_val_char [OF assms] by (metis b64_val_pad option.distinct(1))

lemma b64_char_no_newline [simp]:
  "n < 64 \<Longrightarrow> byte_of (b64_char n) \<noteq> (10::nat) \<and> byte_of (b64_char n) \<noteq> (13::nat)"
  using b64_val_newline b64_val_char by blast

text \<open>The six-bit groups are in range, and put together again they give the bytes back.\<close>

lemma b64_group_bounds:
  fixes x y :: nat
  shows "x < 256 \<Longrightarrow> x div 4 < 64" and "x mod 4 * 16 < 64"
    and "y < 256 \<Longrightarrow> x mod 4 * 16 + y div 16 < 64"
    and "y mod 16 * 4 < 64" and "x < 256 \<Longrightarrow> y mod 16 * 4 + x div 64 < 64" and "x mod 64 < 64"
proof -
  have m: "x mod 4 \<le> 3" "y mod 16 \<le> 15"
    using mod_less_divisor [of 4 x] mod_less_divisor [of 16 y] by linarith+
  show "x mod 4 * 16 < 64" "y mod 16 * 4 < 64" using m by linarith+
  show "x < 256 \<Longrightarrow> x div 4 < 64" by (simp add: less_mult_imp_div_less)
  have "y < 256 \<Longrightarrow> y div 16 < 16" "x < 256 \<Longrightarrow> x div 64 < 4"
    by (simp_all add: less_mult_imp_div_less)
  with m show "y < 256 \<Longrightarrow> x mod 4 * 16 + y div 16 < 64" "x < 256 \<Longrightarrow> y mod 16 * 4 + x div 64 < 64"
    by linarith+
qed simp

lemma b64_high_bits:
  fixes y :: nat
  assumes "y < 256"
  shows "y div 16 div 16 = 0" and "y div 16 mod 16 = y div 16"
    and "y div 64 div 4 = 0" and "y div 64 mod 4 = y div 64"
proof -
  have "y div 16 < 16" "y div 64 < 4"
    using assms by (simp_all add: less_mult_imp_div_less)
  then show "y div 16 div 16 = 0" "y div 16 mod 16 = y div 16"
    "y div 64 div 4 = 0" "y div 64 mod 4 = y div 64" by simp_all
qed

lemmas b64_groups = b64_group_bounds b64_high_bits

lemma decode_quanta_EncodeToString: "decode_quanta (EncodeToString s) = Some s"
  by (induction s rule: EncodeToString.induct) (simp_all add: Let_def b64_groups)

lemma EncodeToString_clean:
  "c \<in> set (EncodeToString s) \<Longrightarrow> byte_of c \<noteq> (10::nat) \<and> byte_of c \<noteq> (13::nat)"
  by (induction s rule: EncodeToString.induct) (auto simp: Let_def b64_groups)

lemma DecodeString_EncodeToString: "DecodeString (EncodeToString s) = Some s"
proof -
  have "filter (\<lambda>c. byte_of c \<noteq> (10::nat) \<and> byte_of c \<noteq> (13::nat)) (EncodeToString s) = EncodeToString s"
    using EncodeToString_clean by (simp add: filter_id_conv)
  then show ?thesis
    by (simp add: DecodeString_def decode_quanta_EncodeToString)
qed

end
