(* ===== verification/Go_Net.thy ===== *)
theory Go_Net
  imports Go_Prelude
begin

text \<open>
  The address functions of \<^verbatim>\<open>net\<close> and the parts of \<^verbatim>\<open>net/url\<close> the proxy reads:
  \<^verbatim>\<open>net.SplitHostPort\<close>, \<^verbatim>\<open>net.JoinHostPort\<close>, the \<^verbatim>\<open>url.URL\<close> structure and its
  \<^verbatim>\<open>Hostname\<close> and \<^verbatim>\<open>Port\<close> methods.
\<close>

section \<open>host:port addresses\<close>

text \<open>Split at the last occurrence of a byte.\<close>

definition cut_last :: "string \<Rightarrow> char \<Rightarrow> (string \<times> string) option" where
  [go_simps]: "cut_last s c = (case Cut (rev s) c of None \<Rightarrow> None | Some (a, b) \<Rightarrow> Some (rev b, rev a))"

definition SplitHostPort :: "string \<Rightarrow> err + string \<times> string" where
  [go_simps]: "SplitHostPort hostport =
     (case cut_last hostport CHR '':'' of
        None \<Rightarrow> Inl (New ''missing port in address'')
      | Some (before, port) \<Rightarrow>
          if hd hostport = CHR ''['' then
            (case Cut hostport CHR '']'' of
               None \<Rightarrow> Inl (New ''missing close bracket in address'')
             | Some (inside, after) \<Rightarrow>
                 if after = [] then Inl (New ''missing port in address'')
                 else if length inside + 1 = length before then
                   (if CHR ''['' \<in> set (tl hostport) then Inl (New ''unexpected open bracket in address'')
                    else if CHR '']'' \<in> set after then Inl (New ''unexpected close bracket in address'')
                    else Inr (tl inside, port))
                 else if hd after = CHR '':'' then Inl (New ''too many colons in address'')
                 else Inl (New ''missing port in address''))
          else if CHR '':'' \<in> set before then Inl (New ''too many colons in address'')
          else if CHR ''['' \<in> set hostport then Inl (New ''unexpected open bracket in address'')
          else if CHR '']'' \<in> set hostport then Inl (New ''unexpected close bracket in address'')
          else Inr (before, port))"

definition JoinHostPort :: "string \<Rightarrow> string \<Rightarrow> string" where
  [go_simps]: "JoinHostPort host port =
     (if CHR '':'' \<in> set host then CHR ''['' # host @ '']:'' @ port else host @ CHR '':'' # port)"

lemma cut_last_append [simp]: "c \<notin> set b \<Longrightarrow> cut_last (a @ c # b) c = Some (a, b)"
  using Cut_append [of c "rev b" "rev a"] by (simp add: cut_last_def)

lemma cut_last_Some: "cut_last s c = Some (a, b) \<Longrightarrow> s = a @ c # b \<and> c \<notin> set b"
  by (auto simp: cut_last_def rev_swap dest!: Cut_Some split: option.splits)

lemma SplitHostPort_JoinHostPort:
  assumes "CHR '':'' \<notin> set port" and "CHR ''['' \<notin> set (host @ port)" and "CHR '']'' \<notin> set (host @ port)"
  shows "SplitHostPort (JoinHostPort host port) = Inr (host, port)"
proof (cases "CHR '':'' \<in> set host")
  case True
  have "cut_last ((CHR ''['' # host @ [CHR '']'']) @ CHR '':'' # port) CHR '':'' =
          Some (CHR ''['' # host @ [CHR '']''], port)"
    using assms(1) by (intro cut_last_append)
  moreover have "Cut ((CHR ''['' # host) @ CHR '']'' # CHR '':'' # port) CHR '']'' =
          Some (CHR ''['' # host, CHR '':'' # port)"
    using assms by (intro Cut_append) auto
  ultimately show ?thesis
    using True assms by (simp add: SplitHostPort_def JoinHostPort_def)
next
  case False
  have "hd (host @ CHR '':'' # port) \<noteq> CHR ''[''"
    using assms(2) by (cases host) auto
  with False assms show ?thesis
    by (simp add: SplitHostPort_def JoinHostPort_def)
qed

lemma SplitHostPort_port_no_colon:
  assumes "SplitHostPort s = Inr (h, p)"
  shows "CHR '':'' \<notin> set p"
proof -
  obtain a where "cut_last s CHR '':'' = Some (a, p)"
    using assms by (auto simp: SplitHostPort_def split: option.splits if_splits)
  then show ?thesis using cut_last_Some by blast
qed

lemma SplitHostPort_no_bracket:
  assumes "SplitHostPort s = Inr (h, p)"
  shows "CHR ''['' \<notin> set h \<and> CHR '']'' \<notin> set h"
proof -
  obtain a where c: "cut_last s CHR '':'' = Some (a, p)"
    using assms by (auto simp: SplitHostPort_def split: option.splits if_splits)
  note s = cut_last_Some [OF c]
  show ?thesis
  proof (cases "hd s = CHR ''[''")
    case True
    then obtain i b where i: "Cut s CHR '']'' = Some (i, b)" "CHR ''['' \<notin> set (tl s)" "h = tl i"
      using assms c by (auto simp: SplitHostPort_def split: option.splits if_splits)
    have "s = i @ CHR '']'' # b" "CHR '']'' \<notin> set i" using Cut_Some [OF i(1)] by auto
    with i(2,3) show ?thesis by (cases i) auto
  next
    case False
    then show ?thesis
      using assms c s by (auto simp: SplitHostPort_def split: if_splits)
  qed
qed

section \<open>URLs\<close>

record userinfo =
  ui_username :: string
  ui_password :: string
  ui_passwordSet :: bool

record url =
  url_Scheme :: string
  url_Opaque :: string
  url_User :: "userinfo option"
  url_Host :: string
  url_Path :: string
  url_RawPath :: string
  url_ForceQuery :: bool
  url_RawQuery :: string
  url_Fragment :: string
  url_RawFragment :: string

definition empty_url :: url where
  "empty_url = \<lparr>url_Scheme = '''', url_Opaque = '''', url_User = None, url_Host = '''', url_Path = '''',
     url_RawPath = '''', url_ForceQuery = False, url_RawQuery = '''', url_Fragment = '''', url_RawFragment = ''''\<rparr>"

text \<open>\<^verbatim>\<open>url.splitHostPort\<close>: a trailing colon and digits is a port; brackets are dropped.\<close>

definition url_splitHostPort :: "string \<Rightarrow> string \<times> string" where
  [go_simps]: "url_splitHostPort hostPort =
     (let (host, port) =
        (case cut_last hostPort CHR '':'' of
           None \<Rightarrow> (hostPort, '''')
         | Some (b, p) \<Rightarrow> if list_all is_digit p then (b, p) else (hostPort, ''''))
      in (if HasPrefix host ''['' \<and> HasSuffix host '']'' then butlast (tl host) else host, port))"

definition Hostname :: "url \<Rightarrow> string" where
  [go_simps]: "Hostname u = fst (url_splitHostPort (url_Host u))"

definition Port :: "url \<Rightarrow> string" where
  [go_simps]: "Port u = snd (url_splitHostPort (url_Host u))"

lemma Port_digits: "list_all is_digit (Port u)"
  by (auto simp: Port_def url_splitHostPort_def Let_def split: option.splits if_splits prod.splits)

end
