(* ===== verification/Go_Http.thy ===== *)
theory Go_Http
  imports Go_Net "HOL-Library.AList"
begin

text \<open>
  The parts of \<^verbatim>\<open>net/http\<close> the proxy reads and writes: header maps with their canonical keys,
  requests, the response writer with \<^verbatim>\<open>http.Error\<close>, and structured log records.

  An \<^verbatim>\<open>http.Header\<close> is a Go map.  It is an association list with distinct keys; the order of
  the list stands for the (unspecified) order in which a \<^verbatim>\<open>range\<close> loop visits the map, so a
  theorem about every list is a theorem about every iteration order.
\<close>

section \<open>Canonical header keys\<close>

definition token_byte :: "char \<Rightarrow> bool" where
  [go_simps]: "token_byte c \<longleftrightarrow>
     (48 \<le> byte_of c \<and> byte_of c \<le> 57) \<or> (65 \<le> byte_of c \<and> byte_of c \<le> 90) \<or>
     (97 \<le> byte_of c \<and> byte_of c \<le> 122) \<or>
     byte_of c \<in> {33, 35, 36, 37, 38, 39, 42, 43, 45, 46, 94, 95, 96, 124, 126 :: nat}"

fun canonical_bytes :: "bool \<Rightarrow> string \<Rightarrow> string" where
  "canonical_bytes up [] = []"
| "canonical_bytes up (c # s) =
     (let c' = (if up then upper_char c else lower_char c) in c' # canonical_bytes (c' = CHR ''-'') s)"

definition CanonicalHeaderKey :: "string \<Rightarrow> string" where
  [go_simps]: "CanonicalHeaderKey s = (if list_all token_byte s then canonical_bytes True s else s)"

lemma upper_char_idem [simp]: "upper_char (upper_char c) = upper_char c"
  by (auto simp: upper_char_def)

lemma lower_char_idem [simp]: "lower_char (lower_char c) = lower_char c"
  by (auto simp: lower_char_def)

lemma byte_of_case:
  "byte_of (upper_char c) = (if 97 \<le> byte_of c \<and> byte_of c \<le> 122 then byte_of c - 32 else byte_of c)"
  "byte_of (lower_char c) = (if 65 \<le> byte_of c \<and> byte_of c \<le> 90 then byte_of c + 32 else byte_of c)"
  by (simp_all add: upper_char_def lower_char_def less_imp_diff_less)

lemma token_byte_case [simp]:
  assumes "token_byte c"
  shows "token_byte (upper_char c)" and "token_byte (lower_char c)"
proof -
  show "token_byte (upper_char c)"
  proof (cases "97 \<le> byte_of c \<and> byte_of c \<le> 122")
    case True
    then have "65 \<le> byte_of (upper_char c) \<and> byte_of (upper_char c) \<le> 90"
      unfolding byte_of_case by auto
    then show ?thesis unfolding token_byte_def by blast
  next
    case False
    then have "upper_char c = c" by (auto simp: upper_char_def)
    with assms show ?thesis by simp
  qed
  show "token_byte (lower_char c)"
  proof (cases "65 \<le> byte_of c \<and> byte_of c \<le> 90")
    case True
    then have "97 \<le> byte_of (lower_char c) \<and> byte_of (lower_char c) \<le> 122"
      unfolding byte_of_case by auto
    then show ?thesis unfolding token_byte_def by blast
  next
    case False
    then have "lower_char c = c" by (auto simp: lower_char_def)
    with assms show ?thesis by simp
  qed
qed

lemma canonical_bytes_idem [simp]: "canonical_bytes up (canonical_bytes up s) = canonical_bytes up s"
  by (induction s arbitrary: up) (simp_all add: Let_def)

lemma canonical_bytes_token: "list_all token_byte s \<Longrightarrow> list_all token_byte (canonical_bytes up s)"
  by (induction s arbitrary: up) (simp_all add: Let_def)

lemma CanonicalHeaderKey_idem [simp]: "CanonicalHeaderKey (CanonicalHeaderKey s) = CanonicalHeaderKey s"
  by (simp add: CanonicalHeaderKey_def canonical_bytes_token)

section \<open>Header maps\<close>

type_synonym header = "(string \<times> string list) list"

definition header_ok :: "header \<Rightarrow> bool" where
  "header_ok h \<longleftrightarrow> distinct (map fst h)"

definition Values :: "header \<Rightarrow> string \<Rightarrow> string list" where
  [go_simps]: "Values h k = (case map_of h (CanonicalHeaderKey k) of None \<Rightarrow> [] | Some vs \<Rightarrow> vs)"

definition Get :: "header \<Rightarrow> string \<Rightarrow> string" where
  [go_simps]: "Get h k = (case Values h k of [] \<Rightarrow> '''' | v # _ \<Rightarrow> v)"

definition Set :: "header \<Rightarrow> string \<Rightarrow> string \<Rightarrow> header" where
  [go_simps]: "Set h k v = AList.update (CanonicalHeaderKey k) [v] h"

definition Add :: "header \<Rightarrow> string \<Rightarrow> string \<Rightarrow> header" where
  [go_simps]: "Add h k v = AList.update (CanonicalHeaderKey k) (Values h k @ [v]) h"

definition Del :: "header \<Rightarrow> string \<Rightarrow> header" where
  [go_simps]: "Del h k = AList.delete (CanonicalHeaderKey k) h"

lemma header_ok_ops [simp]:
  "header_ok h \<Longrightarrow> header_ok (Set h k v)" "header_ok h \<Longrightarrow> header_ok (Add h k v)"
  "header_ok h \<Longrightarrow> header_ok (Del h k)"
  by (simp_all add: header_ok_def Set_def Add_def Del_def distinct_update distinct_delete)

lemma map_of_ops [simp]:
  "map_of (Set h k v) = (map_of h)(CanonicalHeaderKey k \<mapsto> [v])"
  "map_of (Add h k v) = (map_of h)(CanonicalHeaderKey k \<mapsto> Values h k @ [v])"
  "map_of (Del h k) = (map_of h)(CanonicalHeaderKey k := None)"
  by (simp_all add: Set_def Add_def Del_def update_conv' delete_conv')

lemma header_eq_iff_map:
  "Values (Set h k v) k = [v]" "Values (Add h k v) k = Values h k @ [v]" "Values (Del h k) k = []"
  by (simp_all add: Values_def)

section \<open>Requests and responses\<close>

record Request =
  req_Method :: string
  req_URL :: url
  req_ProtoMajor :: int
  req_ProtoMinor :: int
  req_Header :: header
  req_Host :: string
  req_RemoteAddr :: string

text \<open>
  What a handler has put into its \<^verbatim>\<open>ResponseWriter\<close>.  The first \<^verbatim>\<open>WriteHeader\<close> fixes the
  status; later ones are ignored.
\<close>

record ResponseWriter =
  rw_Header :: header
  rw_status :: "int option"
  rw_body :: string

definition newResponseWriter :: ResponseWriter where
  "newResponseWriter = \<lparr>rw_Header = [], rw_status = None, rw_body = ''''\<rparr>"

definition WriteHeader :: "ResponseWriter \<Rightarrow> int \<Rightarrow> ResponseWriter" where
  [go_simps]: "WriteHeader w code = (case rw_status w of None \<Rightarrow> w\<lparr>rw_status := Some code\<rparr> | Some _ \<Rightarrow> w)"

definition http_Error :: "ResponseWriter \<Rightarrow> string \<Rightarrow> int \<Rightarrow> ResponseWriter" where
  [go_simps]: "http_Error w msg code =
     (let h = Set (Set (Del (rw_Header w) ''Content-Length'') ''Content-Type'' ''text/plain; charset=utf-8'')
                  ''X-Content-Type-Options'' ''nosniff'';
          w = WriteHeader (w\<lparr>rw_Header := h\<rparr>) code
      in w\<lparr>rw_body := rw_body w @ msg @ [CHR 0x0A]\<rparr>)"

abbreviation StatusOK :: int where "StatusOK \<equiv> 200"
abbreviation StatusBadRequest :: int where "StatusBadRequest \<equiv> 400"
abbreviation StatusForbidden :: int where "StatusForbidden \<equiv> 403"
abbreviation StatusProxyAuthRequired :: int where "StatusProxyAuthRequired \<equiv> 407"
abbreviation StatusTooManyRequests :: int where "StatusTooManyRequests \<equiv> 429"
abbreviation StatusInternalServerError :: int where "StatusInternalServerError \<equiv> 500"
abbreviation StatusBadGateway :: int where "StatusBadGateway \<equiv> 502"
abbreviation StatusServiceUnavailable :: int where "StatusServiceUnavailable \<equiv> 503"
abbreviation StatusGatewayTimeout :: int where "StatusGatewayTimeout \<equiv> 504"
abbreviation StatusHTTPVersionNotSupported :: int where "StatusHTTPVersionNotSupported \<equiv> 505"

text \<open>\<^verbatim>\<open>http.StatusText\<close> for the codes the proxy uses.\<close>

definition StatusText :: "int \<Rightarrow> string" where
  [go_simps]: "StatusText code =
     (if code = 200 then ''OK'' else if code = 400 then ''Bad Request''
      else if code = 403 then ''Forbidden'' else if code = 407 then ''Proxy Authentication Required''
      else if code = 429 then ''Too Many Requests'' else if code = 500 then ''Internal Server Error''
      else if code = 502 then ''Bad Gateway'' else if code = 503 then ''Service Unavailable''
      else if code = 504 then ''Gateway Timeout'' else if code = 505 then ''HTTP Version Not Supported''
      else '''')"

lemma http_Error_status [simp]:
  "rw_status (http_Error w m c) = (case rw_status w of None \<Rightarrow> Some c | Some s \<Rightarrow> Some s)"
  by (simp add: http_Error_def WriteHeader_def Let_def split: option.splits)

section \<open>Logging\<close>

text \<open>A \<^verbatim>\<open>slog\<close> call: level, message, and the attribute pairs with unformatted values.\<close>

datatype log_level = LDebug | LInfo | LWarn | LError

datatype log_value = LStr string | LDur duration | LErr err | LInt int | LBool bool

datatype log_entry = Log log_level string "(string \<times> log_value) list"

end
