(* ===== verification/Basic_Auth.thy ===== *)
theory Basic_Auth
  imports Failure_Limiter Base64 Go_Http
begin

text \<open>
  Proxy authentication, \<^verbatim>\<open>internal/auth/basic.go\<close>.

  The hash \<^verbatim>\<open>sha256.Sum256\<close> is the parameter \<open>sum256\<close>; the clock readings of the calls into
  the failure limiter are the arguments \<open>now\<close> (in \<^verbatim>\<open>retryAfter\<close>) and \<open>now'\<close> (in
  \<^verbatim>\<open>recordFailure\<close>).  \<open>Authenticate\<close> returns the verdict, the response writer, the
  authenticator with its limiter, and the log records it wrote.  The error logged for undecodable
  base64 stands for Go's \<^verbatim>\<open>CorruptInputError\<close> without the byte offset of its text.
\<close>

unbundle bit_operations_syntax

section \<open>The authenticator\<close>

record BasicOptions =
  opt_LogSensitiveData :: bool
  opt_MaxFailures :: int
  opt_FailureWindow :: duration
  opt_BlockDuration :: duration

record Basic =
  enabled :: bool
  logSensitiveData :: bool
  authFailures :: "failureLimiter option"
  usernameHash :: string
  passwordHash :: string

definition NewBasic :: "(string \<Rightarrow> string) \<Rightarrow> string \<Rightarrow> string \<Rightarrow> BasicOptions \<Rightarrow> Basic" where
  "NewBasic sum256 username password options =
     \<lparr>enabled = (username \<noteq> '''' \<or> password \<noteq> ''''),
      logSensitiveData = opt_LogSensitiveData options,
      authFailures = newFailureLimiter (opt_MaxFailures options) (opt_FailureWindow options) (opt_BlockDuration options),
      usernameHash = sum256 username,
      passwordHash = sum256 password\<rparr>"

definition clientKey :: "string \<Rightarrow> string" where
  "clientKey remoteAddress =
     (case SplitHostPort remoteAddress of Inr (host, _) \<Rightarrow> host | Inl _ \<Rightarrow> remoteAddress)"

definition writeRequired :: "ResponseWriter \<Rightarrow> ResponseWriter" where
  "writeRequired w =
     WriteHeader (w\<lparr>rw_Header := Set (rw_Header w) ''Proxy-Authenticate''
                     ''Basic realm=\"Proxy Authorization Required\"''\<rparr>)
       StatusProxyAuthRequired"

definition retrySeconds :: "duration \<Rightarrow> int" where
  "retrySeconds wait =
     (let seconds = go_quot (wrap64 (wrap64 (wait + Second) - 1)) Second
      in if seconds < 1 then 1 else seconds)"

definition writeRateLimited :: "ResponseWriter \<Rightarrow> duration \<Rightarrow> ResponseWriter" where
  "writeRateLimited w wait =
     http_Error (w\<lparr>rw_Header := Set (rw_Header w) ''Retry-After'' (Itoa (retrySeconds wait))\<rparr>)
       (StatusText StatusTooManyRequests) StatusTooManyRequests"

definition reject :: "Basic \<Rightarrow> time \<Rightarrow> ResponseWriter \<Rightarrow> string \<Rightarrow> bool \<times> ResponseWriter \<times> Basic" where
  "reject a now w client =
     (False, writeRequired w, a\<lparr>authFailures := recordFailure (authFailures a) now client\<rparr>)"

text \<open>\<^verbatim>\<open>subtle.ConstantTimeCompare\<close>: 1 when equal, else 0.\<close>

definition ConstantTimeCompare :: "string \<Rightarrow> string \<Rightarrow> int" where
  "ConstantTimeCompare x y = (if x = y then 1 else 0)"

text \<open>\<^verbatim>\<open>Duration.Round(time.Second)\<close> for a positive duration.\<close>

definition round_second :: "duration \<Rightarrow> duration" where
  "round_second d =
     (let r = d mod Second in
      if r + r < Second then d - r else if max_int64 < d + Second - r then max_int64 else d + Second - r)"

definition Authenticate ::
  "(string \<Rightarrow> string) \<Rightarrow> Basic \<Rightarrow> time \<Rightarrow> time \<Rightarrow> ResponseWriter \<Rightarrow> Request
     \<Rightarrow> (bool \<times> ResponseWriter \<times> Basic) \<times> log_entry list" where
  "Authenticate sum256 a now now' w r =
     (let remote = (''remote'', LStr (req_RemoteAddr r)) in
      if \<not> enabled a then ((True, w, a), [])
      else
        let client = clientKey (req_RemoteAddr r);
            (wait, fl) = retryAfter (authFailures a) now client;
            a = a\<lparr>authFailures := fl\<rparr>
        in
        if 0 < wait then
          ((False, writeRateLimited w wait, a),
           [Log LWarn ''Authentication rate limit exceeded'' [remote, (''retry_after'', LDur (round_second wait))]])
        else
          let auth = Get (req_Header r) ''Proxy-Authorization'' in
          if auth = '''' then
            ((False, writeRequired w, a), [Log LDebug ''No Proxy-Authorization header'' [remote]])
          else
            let scheme_encoded = Cut auth CHR '' '' in
            if scheme_encoded = None \<or> \<not> EqualFold (fst (the scheme_encoded)) ''Basic'' then
              (reject a now' w client, [Log LWarn ''Invalid auth scheme'' [remote]])
            else
              case DecodeString (TrimSpace (snd (the scheme_encoded))) of
                None \<Rightarrow>
                  (reject a now' w client,
                   [Log LWarn ''Error decoding auth'' [(''error'', LErr (New ''illegal base64 data'')), remote]])
              | Some payload \<Rightarrow>
                  (case Cut payload CHR '':'' of
                     None \<Rightarrow> (reject a now' w client, [Log LWarn ''Invalid auth format'' [remote]])
                   | Some (user, pass) \<Rightarrow>
                       let usernameMatch = ConstantTimeCompare (sum256 user) (usernameHash a);
                           passwordMatch = ConstantTimeCompare (sum256 pass) (passwordHash a)
                       in
                       if usernameMatch AND passwordMatch \<noteq> 1 then
                         (reject a now' w client,
                          [if logSensitiveData a
                           then Log LWarn ''Invalid credentials''
                                  [(''username'', LStr user), (''password'', LStr pass), remote]
                           else Log LWarn ''Invalid credentials'' [remote]])
                       else ((True, w, a\<lparr>authFailures := reset (authFailures a) client\<rparr>), [])))"

section \<open>Which requests are accepted\<close>

lemma TrimSpace_id: "\<forall>c \<in> set s. \<not> is_space c \<Longrightarrow> TrimSpace s = s"
  by (simp add: TrimSpace_def dropWhile_eq_self_iff) (cases s rule: rev_cases; auto simp: hd_append split: if_splits)

lemma b64_val_not_space: "b64_val c = Some n \<Longrightarrow> \<not> is_space c"
  by (auto simp: b64_val_def is_space_def Let_def split: if_splits)

lemma b64_char_not_space [simp]: "n < 64 \<Longrightarrow> \<not> is_space (b64_char n)"
  using b64_val_not_space b64_val_char by blast

lemma pad_not_space [simp]: "\<not> is_space CHR ''=''"
  by (simp add: is_space_def)

lemma EncodeToString_not_space: "c \<in> set (EncodeToString s) \<Longrightarrow> \<not> is_space c"
  by (induction s rule: EncodeToString.induct) (auto simp: Let_def b64_groups)

lemma TrimSpace_EncodeToString [simp]: "TrimSpace (EncodeToString s) = EncodeToString s"
  by (simp add: TrimSpace_id EncodeToString_not_space)

definition presents :: "Request \<Rightarrow> string \<Rightarrow> string \<Rightarrow> bool" where
  "presents r user pass \<longleftrightarrow>
     (\<exists>scheme encoded. Get (req_Header r) ''Proxy-Authorization'' = scheme @ CHR '' '' # encoded \<and>
        CHR '' '' \<notin> set scheme \<and> EqualFold scheme ''Basic'' \<and>
        DecodeString (TrimSpace encoded) = Some (user @ CHR '':'' # pass) \<and> CHR '':'' \<notin> set user)"

lemma credential_bits [simp]:
  "(ConstantTimeCompare x y AND ConstantTimeCompare z v = 1) \<longleftrightarrow> x = y \<and> z = v"
  by (simp add: ConstantTimeCompare_def)

lemma presents_iff:
  "presents r user pass \<longleftrightarrow>
     (case Cut (Get (req_Header r) ''Proxy-Authorization'') CHR '' '' of None \<Rightarrow> False
      | Some (scheme, encoded) \<Rightarrow> EqualFold scheme ''Basic'' \<and>
          (case DecodeString (TrimSpace encoded) of None \<Rightarrow> False
           | Some payload \<Rightarrow> Cut payload CHR '':'' = Some (user, pass)))"
proof
  assume "presents r user pass"
  then show "case Cut (Get (req_Header r) ''Proxy-Authorization'') CHR '' '' of None \<Rightarrow> False
      | Some (scheme, encoded) \<Rightarrow> EqualFold scheme ''Basic'' \<and>
          (case DecodeString (TrimSpace encoded) of None \<Rightarrow> False
           | Some payload \<Rightarrow> Cut payload CHR '':'' = Some (user, pass))"
    by (auto simp: presents_def)
next
  assume *: "case Cut (Get (req_Header r) ''Proxy-Authorization'') CHR '' '' of None \<Rightarrow> False
      | Some (scheme, encoded) \<Rightarrow> EqualFold scheme ''Basic'' \<and>
          (case DecodeString (TrimSpace encoded) of None \<Rightarrow> False
           | Some payload \<Rightarrow> Cut payload CHR '':'' = Some (user, pass))"
  then obtain scheme encoded payload where
    "Cut (Get (req_Header r) ''Proxy-Authorization'') CHR '' '' = Some (scheme, encoded)"
    "EqualFold scheme ''Basic''" "DecodeString (TrimSpace encoded) = Some payload"
    "Cut payload CHR '':'' = Some (user, pass)"
    by (auto split: option.splits)
  moreover from this(1,4) have
    "Get (req_Header r) ''Proxy-Authorization'' = scheme @ CHR '' '' # encoded" "CHR '' '' \<notin> set scheme"
    "payload = user @ CHR '':'' # pass" "CHR '':'' \<notin> set user"
    using Cut_Some by blast+
  ultimately show "presents r user pass"
    unfolding presents_def by blast
qed

text \<open>The branches of \<open>Authenticate\<close> after the rate limit, as one case rule.\<close>

lemma auth_header_cases:
  obtains (empty) "Get (req_Header r) ''Proxy-Authorization'' = ''''"
  | (scheme) "Get (req_Header r) ''Proxy-Authorization'' \<noteq> ''''"
      "Cut (Get (req_Header r) ''Proxy-Authorization'') CHR '' '' = None \<or>
       \<not> EqualFold (fst (the (Cut (Get (req_Header r) ''Proxy-Authorization'') CHR '' ''))) ''Basic''"
  | (encoding) s e where "Get (req_Header r) ''Proxy-Authorization'' \<noteq> ''''"
      "Cut (Get (req_Header r) ''Proxy-Authorization'') CHR '' '' = Some (s, e)" "EqualFold s ''Basic''"
      "DecodeString (TrimSpace e) = None"
  | (format) s e p where "Get (req_Header r) ''Proxy-Authorization'' \<noteq> ''''"
      "Cut (Get (req_Header r) ''Proxy-Authorization'') CHR '' '' = Some (s, e)" "EqualFold s ''Basic''"
      "DecodeString (TrimSpace e) = Some p" "Cut p CHR '':'' = None"
  | (pair) s e p u q where "Get (req_Header r) ''Proxy-Authorization'' \<noteq> ''''"
      "Cut (Get (req_Header r) ''Proxy-Authorization'') CHR '' '' = Some (s, e)" "EqualFold s ''Basic''"
      "DecodeString (TrimSpace e) = Some p" "Cut p CHR '':'' = Some (u, q)"
proof (cases "Cut (Get (req_Header r) ''Proxy-Authorization'') CHR '' ''")
  case None
  then show ?thesis using empty scheme by blast
next
  case (Some se)
  obtain s e where se: "se = (s, e)" by (cases se)
  have ne: "Get (req_Header r) ''Proxy-Authorization'' \<noteq> ''''" using Some by auto
  show ?thesis
  proof (cases "EqualFold s ''Basic''")
    case False
    with Some se ne show ?thesis by (intro scheme) auto
  next
    case True
    show ?thesis
    proof (cases "DecodeString (TrimSpace e)")
      case None
      with Some se ne True show ?thesis by (intro encoding) auto
    next
      case (Some p)
      then show ?thesis
        using \<open>Cut _ _ = Some se\<close> se ne True format pair by (cases "Cut p CHR '':''") auto
    qed
  qed
qed

lemma Authenticate_accepts:
  "fst (fst (Authenticate sum256 a now now' w r)) \<longleftrightarrow>
     \<not> enabled a \<or>
     fst (retryAfter (authFailures a) now (clientKey (req_RemoteAddr r))) \<le> 0 \<and>
     (\<exists>user pass. presents r user pass \<and> sum256 user = usernameHash a \<and> sum256 pass = passwordHash a)"
proof (cases "retryAfter (authFailures a) now (clientKey (req_RemoteAddr r))")
  case (Pair wait fl)
  show ?thesis
    by (cases r rule: auth_header_cases) 
      (auto simp: Authenticate_def presents_iff reject_def Let_def Pair split: option.splits)
qed

lemma Authenticate_accept_effect:
  assumes "enabled a" and "fst (fst (Authenticate sum256 a now now' w r))"
  shows "Authenticate sum256 a now now' w r =
     ((True, w, a\<lparr>authFailures := reset (snd (retryAfter (authFailures a) now (clientKey (req_RemoteAddr r))))
                                    (clientKey (req_RemoteAddr r))\<rparr>), [])"
proof (cases "retryAfter (authFailures a) now (clientKey (req_RemoteAddr r))")
  case (Pair wait fl)
  then show ?thesis using assms
    by (cases r rule: auth_header_cases) (auto simp: Authenticate_def reject_def Let_def split: if_splits)
qed

text \<open>A refusal touches the failure counters only: a failed attempt is counted, unless it is blocked or has no credentials.\<close>

definition refused_counters :: "Basic \<Rightarrow> time \<Rightarrow> time \<Rightarrow> Request \<Rightarrow> failureLimiter option" where
  "refused_counters a now now' r =
     (let k = clientKey (req_RemoteAddr r); (wait, fl) = retryAfter (authFailures a) now k
      in if 0 < wait \<or> Get (req_Header r) ''Proxy-Authorization'' = '''' then fl else recordFailure fl now' k)"

lemma Authenticate_refuse_effect:
  assumes "Authenticate sum256 a now now' w r = ((False, w', a'), logs)"
  shows "a' = a\<lparr>authFailures := refused_counters a now now' r\<rparr>"
proof (cases "retryAfter (authFailures a) now (clientKey (req_RemoteAddr r))")
  case (Pair wait fl)
  then show ?thesis
    using assms
    by (cases r rule: auth_header_cases) (auto simp: Authenticate_def refused_counters_def reject_def Let_def split: if_splits)
qed

definition refusal_ok :: "ResponseWriter \<Rightarrow> bool" where
  "refusal_ok w \<longleftrightarrow>
     (rw_status w = Some StatusProxyAuthRequired \<and>
        Values (rw_Header w) ''Proxy-Authenticate'' = [''Basic realm=\"Proxy Authorization Required\"'']) \<or>
     (rw_status w = Some StatusTooManyRequests \<and>
        (\<exists>n \<ge> 1. Values (rw_Header w) ''Retry-After'' = [Itoa n]))"

lemma canon_names:
  "CanonicalHeaderKey ''Retry-After'' = ''Retry-After''"
  "CanonicalHeaderKey ''Proxy-Authenticate'' = ''Proxy-Authenticate''"
  "CanonicalHeaderKey ''Content-Length'' = ''Content-Length''"
  "CanonicalHeaderKey ''Content-Type'' = ''Content-Type''"
  "CanonicalHeaderKey ''X-Content-Type-Options'' = ''X-Content-Type-Options''"
  by code_simp+

lemma writeRequired_ok: "rw_status w = None \<Longrightarrow> refusal_ok (writeRequired w)"
  by (simp add: refusal_ok_def writeRequired_def WriteHeader_def header_eq_iff_map)

lemma retrySeconds_ge: "1 \<le> retrySeconds d"
  by (simp add: retrySeconds_def Let_def)

lemma writeRateLimited_ok: "rw_status w = None \<Longrightarrow> refusal_ok (writeRateLimited w d)"
  using retrySeconds_ge [of d]
  by (auto simp: refusal_ok_def writeRateLimited_def http_Error_def WriteHeader_def Let_def Values_def canon_names)

lemma writeRateLimited_values:
  "Values (rw_Header (writeRateLimited w d)) ''Retry-After'' = [Itoa (retrySeconds d)]"
  by (simp add: writeRateLimited_def http_Error_def WriteHeader_def Let_def Values_def canon_names split: option.splits)

section \<open>The Retry-After value\<close>

lemma wrap64_minus: "wrap64 (wrap64 x - y) = wrap64 (x - y)"
proof -
  have "((x + 9223372036854775808) mod 18446744073709551616 - y) mod 18446744073709551616 =
        (x + 9223372036854775808 - y) mod 18446744073709551616"
    by (rule mod_diff_left_eq)
  then show ?thesis
    unfolding wrap64_def by (simp add: algebra_simps)
qed

lemma retrySeconds_small:
  assumes "0 < d" and "d \<le> max_int64 - (Second - 1)"
  shows "retrySeconds d = (d + Second - 1) div Second"
proof -
  have "wrap64 (d + Second - 1) = d + Second - 1"
    using assms by (intro wrap64_id) (simp add: int64_range_def min_int64_def max_int64_def)
  moreover have "1 \<le> (d + Second - 1) div Second"
    using assms by (simp add: div_add_self2 pos_imp_zdiv_nonneg_iff zdiv_mono1 [of Second _ Second, simplified])
  ultimately show ?thesis
    using assms by (simp add: retrySeconds_def wrap64_minus go_quot_def)
qed

lemma retrySeconds_big:
  assumes "max_int64 - (Second - 1) < d" and "d \<le> max_int64"
  shows "retrySeconds d = 1"
proof -
  have "wrap64 (d + Second - 1) = d + Second - 1 - 18446744073709551616"
    using assms by (simp add: wrap64_def max_int64_def mod_pos_geq)
  then show ?thesis
    using assms by (simp add: retrySeconds_def wrap64_minus go_quot_def max_int64_def)
qed

lemma Authenticate_response:
  assumes "rw_status w = None" and "Authenticate sum256 a now now' w r = ((ok, w', a'), logs)"
  shows "if ok then w' = w \<and> logs = [] else refusal_ok w' \<and> length logs = 1"
proof (cases "retryAfter (authFailures a) now (clientKey (req_RemoteAddr r))")
  case (Pair wait fl)
  then show ?thesis
    using assms(2) writeRequired_ok [OF assms(1)] writeRateLimited_ok [OF assms(1), of wait]
    by (cases r rule: auth_header_cases) (auto simp: Authenticate_def reject_def Let_def split: if_splits)
qed

lemma Authenticate_log:
  assumes "\<not> logSensitiveData a"
    and "Log level msg attrs \<in> set (snd (Authenticate sum256 a now now' w r))"
  shows "set attrs \<subseteq>
     {(''remote'', LStr (req_RemoteAddr r)),
      (''retry_after'', LDur (round_second (fst (retryAfter (authFailures a) now (clientKey (req_RemoteAddr r)))))),
      (''error'', LErr (New ''illegal base64 data''))}"
proof (cases "retryAfter (authFailures a) now (clientKey (req_RemoteAddr r))")
  case (Pair wait fl)
  then show ?thesis
    using assms by (cases r rule: auth_header_cases)
      (auto simp: Authenticate_def Let_def split: if_splits)
qed

section \<open>Properties\<close>

definition demo_basic :: Basic where
  "demo_basic = NewBasic id ''alice'' ''s3cret'' \<lparr>opt_LogSensitiveData = False, opt_MaxFailures = 2,
     opt_FailureWindow = 10 * Second, opt_BlockDuration = 30 * Second\<rparr>"

definition demo_request :: "string \<Rightarrow> Request" where
  "demo_request authorization =
     \<lparr>req_Method = ''CONNECT'', req_URL = empty_url, req_ProtoMajor = 1, req_ProtoMinor = 1,
      req_Header = (if authorization = '''' then [] else [(''Proxy-Authorization'', [authorization])]),
      req_Host = ''example.com:443'', req_RemoteAddr = ''192.0.2.7:40000''\<rparr>"

lemma demo_header: "Get (req_Header (demo_request v)) ''Proxy-Authorization'' = v"
proof -
  have "CanonicalHeaderKey ''Proxy-Authorization'' = ''Proxy-Authorization''" by code_simp
  then show ?thesis by (simp add: demo_request_def Get_def Values_def)
qed

lemma demo_client: "clientKey (req_RemoteAddr (demo_request v)) = ''192.0.2.7''"
proof -
  have "clientKey ''192.0.2.7:40000'' = ''192.0.2.7''" by code_simp
  then show ?thesis by (simp add: demo_request_def)
qed

lemma demo_presents: "presents (demo_request ''Basic YWxpY2U6czNjcmV0'') ''alice'' ''s3cret''"
proof -
  have "Cut ''Basic YWxpY2U6czNjcmV0'' CHR '' '' = Some (''Basic'', ''YWxpY2U6czNjcmV0'')"
    "EqualFold ''Basic'' ''Basic''" "DecodeString (TrimSpace ''YWxpY2U6czNjcmV0'') = Some ''alice:s3cret''"
    "Cut ''alice:s3cret'' CHR '':'' = Some (''alice'', ''s3cret'')"
    by code_simp+
  then show ?thesis by (simp add: presents_iff demo_header)
qed

lemma demo_fresh: "retryAfter (authFailures demo_basic) 100 k = (0, Some
    \<lparr>maxFailures = 2, window = 10 * Second, block = 30 * Second, records = Map.empty,
     nextCleanup = 10000000100\<rparr>)"
  by (simp add: demo_basic_def NewBasic_def newFailureLimiter_def cleanup_def limiter_defs)

lemma demo_basic_sel:
  "enabled demo_basic" "\<not> logSensitiveData demo_basic"
  "usernameHash demo_basic = ''alice''" "passwordHash demo_basic = ''s3cret''"
  by (simp_all add: demo_basic_def NewBasic_def)

text \<open>
  C11: With authentication enabled and a hash without collisions on the configured name and
  password, \<^verbatim>\<open>Authenticate\<close> lets a request through exactly when the client is not blocked and
  its \<^verbatim>\<open>Proxy-Authorization\<close> header carries the Basic credentials that were configured.
\<close>

theorem authenticate_exact:
  assumes "enabled a" and "usernameHash a = sum256 username" and "passwordHash a = sum256 password"
    and "\<And>x. sum256 x = sum256 username \<Longrightarrow> x = username"
    and "\<And>x. sum256 x = sum256 password \<Longrightarrow> x = password"
    and "0 \<le> now"
  shows "fst (fst (Authenticate sum256 a now now' w r)) \<longleftrightarrow>
           blocked_until (authFailures a) (clientKey (req_RemoteAddr r)) \<le> now \<and> presents r username password"
proof -
  have "fst (retryAfter (authFailures a) now k) \<le> 0 \<longleftrightarrow> blocked_until (authFailures a) k \<le> now" for k
    using fl.retry_pos [OF assms(6), of "authFailures a" k] by linarith
  then show ?thesis
    using assms(1-5) by (auto simp: Authenticate_accepts)
qed

theorem authenticate_exact_witness:
  "fst (fst (Authenticate id demo_basic 100 100 newResponseWriter (demo_request ''Basic YWxpY2U6czNjcmV0'')))"
  using authenticate_exact [of demo_basic id "''alice''" "''s3cret''" 100 100 newResponseWriter
      "demo_request ''Basic YWxpY2U6czNjcmV0''"]
  by (simp add: demo_basic_sel demo_presents demo_basic_def NewBasic_def newFailureLimiter_def blocked_until_def)

text \<open>
  A client that presents the standard encoding of the configured name and password (a name
  without a colon) and is not blocked is let through; the response is untouched, nothing is
  logged, and its failure count is cleared.
\<close>

theorem authenticate_login:
  assumes "enabled a" and "usernameHash a = sum256 username" and "passwordHash a = sum256 password"
    and "CHR '':'' \<notin> set username" and "0 \<le> now"
    and "blocked_until (authFailures a) (clientKey (req_RemoteAddr r)) \<le> now"
    and "Get (req_Header r) ''Proxy-Authorization'' = ''Basic '' @ EncodeToString (username @ '':'' @ password)"
  shows "\<exists>fl. Authenticate sum256 a now now' w r = ((True, w, a\<lparr>authFailures := fl\<rparr>), []) \<and>
           (\<forall>t \<ge> 0. fst (retryAfter fl t (clientKey (req_RemoteAddr r))) = 0)"
proof -
  have "presents r username password"
    unfolding presents_def
    by (rule exI [of _ "''Basic''"], rule exI [of _ "EncodeToString (username @ '':'' @ password)"])
      (use assms(4,7) DecodeString_EncodeToString in \<open>simp add: EqualFold_def\<close>)
  moreover have "fst (retryAfter (authFailures a) now (clientKey (req_RemoteAddr r))) \<le> 0"
    using fl.retry_pos [OF assms(5), of "authFailures a" "clientKey (req_RemoteAddr r)"] assms(6) by linarith
  ultimately have "fst (fst (Authenticate sum256 a now now' w r))"
    using assms(2,3) by (auto simp: Authenticate_accepts)
  from Authenticate_accept_effect [OF assms(1) this] show ?thesis
    using fl.cleared_not_blocked by blast
qed

theorem authenticate_login_witness:
  "\<exists>fl. Authenticate id demo_basic 100 100 newResponseWriter (demo_request ''Basic YWxpY2U6czNjcmV0'')
      = ((True, newResponseWriter, demo_basic\<lparr>authFailures := fl\<rparr>), [])"
proof -
  have e: "''Basic '' @ EncodeToString (''alice'' @ '':'' @ ''s3cret'') = ''Basic YWxpY2U6czNjcmV0''"
    by code_simp
  show ?thesis
    using authenticate_login [of demo_basic id "''alice''" "''s3cret''" 100
        "demo_request ''Basic YWxpY2U6czNjcmV0''" 100 newResponseWriter]
    unfolding e by (auto simp: demo_basic_sel demo_header demo_basic_def NewBasic_def newFailureLimiter_def blocked_until_def)
qed

text \<open>
  While a client is blocked, every one of its requests is answered 429 with a Retry-After
  header, whatever credentials it carries, and the attempt changes no blocking period.
\<close>

theorem blocked_client_gets_429:
  assumes "enabled a" and "0 \<le> now" and "rw_status w = None"
    and "now < blocked_until (authFailures a) (clientKey (req_RemoteAddr r))"
  shows "\<exists>w' fl logs. Authenticate sum256 a now now' w r = ((False, w', a\<lparr>authFailures := fl\<rparr>), logs) \<and>
           rw_status w' = Some StatusTooManyRequests \<and>
           (\<exists>n \<ge> 1. Values (rw_Header w') ''Retry-After'' = [Itoa n]) \<and>
           (\<forall>k t. now \<le> t \<longrightarrow> (t < blocked_until fl k \<longleftrightarrow> t < blocked_until (authFailures a) k))"
proof -
  obtain wait fl where ra: "retryAfter (authFailures a) now (clientKey (req_RemoteAddr r)) = (wait, fl)"
    by fastforce
  have "0 < wait"
    using fl.retry_pos [OF assms(2), of "authFailures a" "clientKey (req_RemoteAddr r)"] assms(4) ra by simp
  moreover have "\<forall>k t. now \<le> t \<longrightarrow> (t < blocked_until fl k \<longleftrightarrow> t < blocked_until (authFailures a) k)"
    using fl.until_retry [OF assms(2)] ra by (metis snd_conv)
  moreover have "rw_status (writeRateLimited w wait) = Some StatusTooManyRequests"
    using assms(3) by (simp add: writeRateLimited_def)
  moreover have "\<exists>n \<ge> 1. Values (rw_Header (writeRateLimited w wait)) ''Retry-After'' = [Itoa n]"
    using writeRateLimited_values [of w wait] retrySeconds_ge by blast
  moreover have "\<exists>logs. Authenticate sum256 a now now' w r =
      ((False, writeRateLimited w wait, a\<lparr>authFailures := fl\<rparr>), logs)"
    using assms(1) ra \<open>0 < wait\<close> by (simp add: Authenticate_def)
  ultimately show ?thesis by blast
qed

definition demo_blocked :: Basic where
  "demo_blocked = demo_basic\<lparr>authFailures := Some \<lparr>maxFailures = 2, window = 10 * Second, block = 30 * Second,
     records = [''192.0.2.7'' \<mapsto> \<lparr>failures = 2, windowStart = 50, blockedUntil = 60 + 30 * Second\<rparr>],
     nextCleanup = 50\<rparr>\<rparr>"

theorem blocked_client_gets_429_witness:
  "\<exists>w' fl logs. Authenticate id demo_blocked 100 100 newResponseWriter (demo_request ''Basic YWxpY2U6czNjcmV0'')
      = ((False, w', demo_blocked\<lparr>authFailures := fl\<rparr>), logs) \<and> rw_status w' = Some 429"
proof -
  have "100 < blocked_until (authFailures demo_blocked)
      (clientKey (req_RemoteAddr (demo_request ''Basic YWxpY2U6czNjcmV0'')))"
    unfolding demo_client by (simp add: demo_blocked_def blocked_until_def)
  moreover have "enabled demo_blocked" "rw_status newResponseWriter = None"
    by (simp_all add: demo_blocked_def demo_basic_sel newResponseWriter_def)
  ultimately show ?thesis
    using blocked_client_gets_429 [of demo_blocked 100 newResponseWriter
        "demo_request ''Basic YWxpY2U6czNjcmV0''" id 100] by auto
qed

text \<open>
  A refused request is always answered, with 407 and the Basic challenge or with 429 and a
  Retry-After of at least one second; an accepted request leaves the response untouched.
\<close>

theorem authenticate_response:
  assumes "rw_status w = None" and "Authenticate sum256 a now now' w r = ((ok, w', a'), logs)"
  shows "if ok then w' = w \<and> logs = [] else refusal_ok w' \<and> length logs = 1"
  using assms by (rule Authenticate_response)

theorem authenticate_response_witness:
  "\<exists>w' a' logs. Authenticate id demo_basic 100 100 newResponseWriter (demo_request '''') = ((False, w', a'), logs)
     \<and> refusal_ok w'"
proof -
  obtain w' a' logs where A:
    "Authenticate id demo_basic 100 100 newResponseWriter (demo_request '''') = ((False, w', a'), logs)"
    using demo_header [of "''''"] by (auto simp: Authenticate_def demo_basic_sel demo_fresh Let_def)
  with authenticate_response [OF _ A] show ?thesis
    by (auto simp: newResponseWriter_def)
qed

text \<open>
  Unless sensitive logging is switched on, nothing of the presented credentials reaches the
  log: the records of any request carry the client address, the remaining block time and a fixed
  decoding error, and no other attribute.
\<close>

theorem no_credentials_logged:
  assumes "\<not> logSensitiveData a"
    and "Log level msg attrs \<in> set (snd (Authenticate sum256 a now now' w r))"
  shows "set attrs \<subseteq>
     {(''remote'', LStr (req_RemoteAddr r)),
      (''retry_after'', LDur (round_second (fst (retryAfter (authFailures a) now (clientKey (req_RemoteAddr r)))))),
      (''error'', LErr (New ''illegal base64 data''))}"
  using assms by (rule Authenticate_log)

theorem no_credentials_logged_witness:
  "snd (Authenticate id demo_basic 100 100 newResponseWriter (demo_request ''Basic YWxpY2U6d3Jvbmc=''))
     = [Log LWarn ''Invalid credentials'' [(''remote'', LStr ''192.0.2.7:40000'')]] \<and>
   set [(''remote'', LStr ''192.0.2.7:40000'')] \<subseteq>
     {(''remote'', LStr ''192.0.2.7:40000''), (''retry_after'', LDur (round_second 0)),
      (''error'', LErr (New ''illegal base64 data''))}"
proof -
  let ?r = "demo_request ''Basic YWxpY2U6d3Jvbmc=''"
  have c: "Cut ''Basic YWxpY2U6d3Jvbmc='' CHR '' '' = Some (''Basic'', ''YWxpY2U6d3Jvbmc='')"
    "EqualFold ''Basic'' ''Basic''" "DecodeString (TrimSpace ''YWxpY2U6d3Jvbmc='') = Some ''alice:wrong''"
    "Cut ''alice:wrong'' CHR '':'' = Some (''alice'', ''wrong'')"
    by code_simp+
  have r: "req_RemoteAddr ?r = ''192.0.2.7:40000''" by (simp add: demo_request_def)
  have l: "snd (Authenticate id demo_basic 100 100 newResponseWriter ?r)
     = [Log LWarn ''Invalid credentials'' [(''remote'', LStr ''192.0.2.7:40000'')]]"
    unfolding Authenticate_def demo_header Let_def r
    using c by (simp add: demo_basic_sel demo_fresh ConstantTimeCompare_def)
  then have "Log LWarn ''Invalid credentials'' [(''remote'', LStr ''192.0.2.7:40000'')]
      \<in> set (snd (Authenticate id demo_basic 100 100 newResponseWriter ?r))" by simp
  from no_credentials_logged [OF demo_basic_sel(2) this] l show ?thesis
    by (simp add: r)
qed

text \<open>
  The Retry-After value is the remaining time rounded up to whole seconds for every
  remaining time up to the largest duration less 999999999 ns; beyond that the addition
  overflows and the answer is 1.
\<close>

theorem retry_after_seconds:
  assumes "0 < d" and "d \<le> max_int64"
  shows "if d \<le> max_int64 - (Second - 1)
         then (retrySeconds d - 1) * Second < d \<and> d \<le> retrySeconds d * Second
         else retrySeconds d = 1"
proof (cases "d \<le> max_int64 - (Second - 1)")
  case True
  let ?q = "(d + Second - 1) div Second"
  have "?q * Second \<le> d + Second - 1" "d + Second - 1 < ?q * Second + Second"
    using pos_mod_sign [of Second "d + Second - 1"] pos_mod_bound [of Second "d + Second - 1"]
      div_mult_mod_eq [of "d + Second - 1" Second] by linarith+
  then show ?thesis
    using True retrySeconds_small [OF assms(1) True] by auto
next
  case False
  then show ?thesis using retrySeconds_big assms(2) by simp
qed

theorem retry_after_seconds_witness: "retrySeconds 1500000000 = 2 \<and> retrySeconds 9223372036854775807 = 1"
  using retry_after_seconds [of 1500000000] retry_after_seconds [of 9223372036854775807]
  by (auto simp: max_int64_def)

text \<open>
  A configured name that contains a colon can never log in, with any credentials: the
  presented pair is split at its first colon.
\<close>

theorem colon_username_never_accepted:
  assumes "enabled a" and "usernameHash a = sum256 username"
    and "\<And>x. sum256 x = sum256 username \<Longrightarrow> x = username" and "CHR '':'' \<in> set username"
  shows "\<not> fst (fst (Authenticate sum256 a now now' w r))"
  using assms by (auto simp: Authenticate_accepts presents_def)

theorem colon_username_never_accepted_witness:
  "\<not> fst (fst (Authenticate id (NewBasic id ''a:b'' ''p'' \<lparr>opt_LogSensitiveData = False, opt_MaxFailures = 2,
     opt_FailureWindow = 10, opt_BlockDuration = 30\<rparr>) 100 100 newResponseWriter (demo_request ''Basic YTpiOnA='')))"
  by (rule colon_username_never_accepted [where username = "''a:b''"]) (simp_all add: NewBasic_def)

end
