(* ===== verification/Concurrent_Limiter.thy ===== *)
theory Concurrent_Limiter
  imports Go_Net
begin

text \<open>
  Concurrency limits, \<^verbatim>\<open>internal/proxy/limits.go\<close>: the limiter shared by the listener (client
  connections) and the CONNECT handler (tunnels), and the limited listener and connections.

  A release closure is a value: the key it captured and the state of its \<^verbatim>\<open>sync.Once\<close>.
  Lock-protected bodies are single steps; \<open>limiter_sys\<close> collects every closure handed out, so
  that the counters can be compared with the slots really in use, for any interleaving of
  acquisitions and (possibly repeated) releases.
\<close>

section \<open>The limiter\<close>

record concurrentLimiter =
  maxTotal :: int
  maxPerKey :: int
  total :: int
  perKey :: "string \<rightharpoonup> int"

definition newConcurrentLimiter :: "int \<Rightarrow> int \<Rightarrow> concurrentLimiter" where
  "newConcurrentLimiter mTotal mPerKey =
     \<lparr>maxTotal = mTotal, maxPerKey = mPerKey, total = 0, perKey = Map.empty\<rparr>"

text \<open>Reading a missing entry of a Go map gives the zero value.\<close>

definition perKey_at :: "concurrentLimiter \<Rightarrow> string \<Rightarrow> int" where
  "perKey_at l key = (case perKey l key of None \<Rightarrow> 0 | Some n \<Rightarrow> n)"

record releaser =
  rel_key :: string
  rel_done :: bool

definition limiter_key :: "string \<Rightarrow> string" where
  "limiter_key key = (if key = '''' then ''unknown'' else key)"

definition tryAcquire :: "concurrentLimiter \<Rightarrow> string \<Rightarrow> (releaser \<times> concurrentLimiter) option" where
  "tryAcquire l key0 =
     (let key = limiter_key key0 in
      if maxTotal l \<le> total l \<or> maxPerKey l \<le> perKey_at l key then None
      else
        let l = l\<lparr>total := total l + 1\<rparr>;
            l = l\<lparr>perKey := (perKey l)(key \<mapsto> perKey_at l key + 1)\<rparr>
        in Some (\<lparr>rel_key = key, rel_done = False\<rparr>, l))"

definition release :: "concurrentLimiter \<Rightarrow> releaser \<Rightarrow> concurrentLimiter \<times> releaser" where
  "release l r =
     (if rel_done r then (l, r)
      else
        let l = l\<lparr>total := total l - 1\<rparr>;
            l = l\<lparr>perKey := (perKey l)(rel_key r \<mapsto> perKey_at l (rel_key r) - 1)\<rparr>;
            l = (if perKey_at l (rel_key r) = 0 then l\<lparr>perKey := (perKey l)(rel_key r := None)\<rparr> else l)
        in (l, r\<lparr>rel_done := True\<rparr>))"

section \<open>The listener\<close>

definition addressHost :: "string \<Rightarrow> string" where
  "addressHost address = (case SplitHostPort address of Inr (host, _) \<Rightarrow> host | Inl _ \<Rightarrow> address)"

text \<open>
  A client connection of the wrapped listener: an identifier, its remote address, and the
  results of its \<^verbatim>\<open>Close\<close> and (if it has one) \<^verbatim>\<open>CloseWrite\<close> methods.
\<close>

record net_conn =
  conn_id :: nat
  conn_remote :: string
  conn_closeErr :: "err option"
  conn_closeWrite :: "err option option"

record limitedConn =
  lc_conn :: net_conn
  lc_release :: releaser
  lc_once :: bool

record limitedListener =
  ll_limiter :: concurrentLimiter

definition newLimitedListener :: "int \<Rightarrow> int \<Rightarrow> limitedListener" where
  "newLimitedListener maxConnections maxConnectionsPerIP =
     \<lparr>ll_limiter = newConcurrentLimiter maxConnections maxConnectionsPerIP\<rparr>"

text \<open>
  \<^verbatim>\<open>Accept\<close> over the results the wrapped listener will give.  Each comes with what other
  goroutines did to the limiter while the loop was blocked in the wrapped \<^verbatim>\<open>Accept\<close>.  The answer
  \<open>None\<close> means that all of them were consumed and the loop is waiting for the next one.  The last
  component lists the connections that were closed because of the limit.
\<close>

type_synonym arrival = "(concurrentLimiter \<Rightarrow> concurrentLimiter) \<times> (err + net_conn)"

fun Accept :: "limitedListener \<Rightarrow> arrival list \<Rightarrow>
     (err + limitedConn) option \<times> limitedListener \<times> arrival list \<times> net_conn list" where
  "Accept l [] = (None, l, [], [])"
| "Accept l ((others, Inl e) # incoming) =
     (Some (Inl e), l\<lparr>ll_limiter := others (ll_limiter l)\<rparr>, incoming, [])"
| "Accept l ((others, Inr c) # incoming) =
     (let l = l\<lparr>ll_limiter := others (ll_limiter l)\<rparr> in
      case tryAcquire (ll_limiter l) (addressHost (conn_remote c)) of
        None \<Rightarrow> (let (res, l', rest, closed) = Accept l incoming in (res, l', rest, c # closed))
      | Some (rel, lim) \<Rightarrow>
          (Some (Inr \<lparr>lc_conn = c, lc_release = rel, lc_once = False\<rparr>), l\<lparr>ll_limiter := lim\<rparr>, incoming, []))"

definition limitedConn_Close :: "limitedListener \<Rightarrow> limitedConn \<Rightarrow> err option \<times> limitedListener \<times> limitedConn" where
  "limitedConn_Close l c =
     (let e = conn_closeErr (lc_conn c) in
      if lc_once c then (e, l, c)
      else let (lim, rel) = release (ll_limiter l) (lc_release c)
           in (e, l\<lparr>ll_limiter := lim\<rparr>, c\<lparr>lc_release := rel, lc_once := True\<rparr>))"

definition limitedConn_CloseWrite :: "limitedConn \<Rightarrow> err option" where
  "limitedConn_CloseWrite c =
     (case conn_closeWrite (lc_conn c) of Some e \<Rightarrow> e | None \<Rightarrow> None)"

section \<open>Interleavings\<close>

record limiter_sys =
  sys_limiter :: concurrentLimiter
  sys_releasers :: "releaser list"

inductive limiter_sys_step :: "limiter_sys \<Rightarrow> limiter_sys \<Rightarrow> bool" where
  sys_acquire:
    "tryAcquire (sys_limiter s) key = Some (r, l) \<Longrightarrow>
     limiter_sys_step s (s\<lparr>sys_limiter := l, sys_releasers := sys_releasers s @ [r]\<rparr>)"
| sys_refuse:
    "tryAcquire (sys_limiter s) key = None \<Longrightarrow> limiter_sys_step s s"
| sys_release:
    "i < length (sys_releasers s) \<Longrightarrow> release (sys_limiter s) (sys_releasers s ! i) = (l, r) \<Longrightarrow>
     limiter_sys_step s (s\<lparr>sys_limiter := l, sys_releasers := (sys_releasers s)[i := r]\<rparr>)"

definition limiter_sys_init :: "int \<Rightarrow> int \<Rightarrow> limiter_sys \<Rightarrow> bool" where
  "limiter_sys_init m k s \<longleftrightarrow> s = \<lparr>sys_limiter = newConcurrentLimiter m k, sys_releasers = []\<rparr>"

text \<open>The slots in use, in all and for one key.\<close>

definition in_use :: "releaser list \<Rightarrow> nat" where
  "in_use rs = length (filter (\<lambda>r. \<not> rel_done r) rs)"

definition in_use_by :: "string \<Rightarrow> releaser list \<Rightarrow> nat" where
  "in_use_by k rs = length (filter (\<lambda>r. \<not> rel_done r \<and> rel_key r = k) rs)"

definition usage :: "releaser list \<Rightarrow> string \<rightharpoonup> int" where
  "usage rs = (\<lambda>k. if in_use_by k rs = 0 then None else Some (int (in_use_by k rs)))"

definition limiter_sys_inv :: "int \<Rightarrow> int \<Rightarrow> limiter_sys \<Rightarrow> bool" where
  "limiter_sys_inv m p s \<longleftrightarrow>
     sys_limiter s = \<lparr>maxTotal = m, maxPerKey = p, total = int (in_use (sys_releasers s)),
                      perKey = usage (sys_releasers s)\<rparr> \<and>
     int (in_use (sys_releasers s)) \<le> max 0 m \<and>
     (\<forall>k. int (in_use_by k (sys_releasers s)) \<le> max 0 p)"

section \<open>The contract of a slot limiter\<close>

text \<open>
  What the listener and the tunnel handler rely on: a granted slot is counted once, for the key
  it was granted to, releasing it gives exactly it back, and releasing again does nothing.
\<close>

locale slot_limiter =
  fixes acquire :: "'l \<Rightarrow> string \<Rightarrow> ('r \<times> 'l) option"
    and give_back :: "'l \<Rightarrow> 'r \<Rightarrow> 'l \<times> 'r"
    and load :: "'l \<Rightarrow> int"
    and load_of :: "'l \<Rightarrow> string \<Rightarrow> int"
    and held :: "'r \<Rightarrow> bool"
    and owner :: "'r \<Rightarrow> string"
  assumes acquire_load: "acquire l k = Some (r, l') \<Longrightarrow>
      held r \<and> load l' = load l + 1 \<and> load_of l' j = load_of l j + (if j = owner r then 1 else 0)"
    and give_back_load: "give_back l r = (l', r') \<Longrightarrow> held r \<Longrightarrow>
      \<not> held r' \<and> load l' = load l - 1 \<and> load_of l' j = load_of l j - (if j = owner r then 1 else 0)"
    and give_back_again: "\<not> held r \<Longrightarrow> give_back l r = (l, r)"
begin

lemma acquire_give_back:
  assumes "acquire l k = Some (r, l')" and "give_back l' r = (l'', r')"
  shows "load l'' = load l" and "load_of l'' j = load_of l j" and "\<not> held r'"
  using acquire_load [OF assms(1), of j] give_back_load [OF assms(2), of j] by auto

lemma give_back_twice:
  assumes "give_back l r = (l', r')" and "held r"
  shows "give_back l'' r' = (l'', r')"
  using give_back_load [OF assms] give_back_again by blast

end

section \<open>The limiter fulfils the contract and its invariant\<close>

lemma perKey_at_upd [simp]:
  "perKey_at (l\<lparr>perKey := m\<rparr>) k = (case m k of None \<Rightarrow> 0 | Some n \<Rightarrow> n)"
  "perKey_at (l\<lparr>total := t\<rparr>) k = perKey_at l k"
  by (simp_all add: perKey_at_def)

lemma perKey_at_total:
  "perKey_at \<lparr>maxTotal = a, maxPerKey = b, total = c, perKey = m\<rparr> k = (case m k of None \<Rightarrow> 0 | Some n \<Rightarrow> n)"
  by (simp add: perKey_at_def)

lemma perKey_at_fold: "(case perKey l k of None \<Rightarrow> 0 | Some n \<Rightarrow> n) = perKey_at l k"
  by (simp add: perKey_at_def)

interpretation cl: slot_limiter tryAcquire release total perKey_at "\<lambda>r. \<not> rel_done r" rel_key
proof unfold_locales
  fix l l' k r j
  assume "tryAcquire l k = Some (r, l')"
  then show "\<not> rel_done r \<and> total l' = total l + 1 \<and>
      perKey_at l' j = perKey_at l j + (if j = rel_key r then 1 else 0)"
    by (auto simp: tryAcquire_def Let_def perKey_at_fold split: if_splits)
next
  fix l l' r r' j
  assume "release l r = (l', r')" and "\<not> rel_done r"
  then show "\<not> \<not> rel_done r' \<and> total l' = total l - 1 \<and>
      perKey_at l' j = perKey_at l j - (if j = rel_key r then 1 else 0)"
    by (auto simp: release_def Let_def perKey_at_fold split: if_splits)
qed (simp add: release_def)

lemma in_use_append [simp]:
  "in_use (rs @ [r]) = in_use rs + (if rel_done r then 0 else 1)"
  "in_use_by k (rs @ [r]) = in_use_by k rs + (if \<not> rel_done r \<and> rel_key r = k then 1 else 0)"
  by (simp_all add: in_use_def in_use_by_def)

lemma length_filter_update:
  assumes "i < length xs" and "P (xs ! i)" and "\<not> P y"
  shows "length (filter P xs) = Suc (length (filter P (xs[i := y])))"
proof -
  have "xs = take i xs @ xs ! i # drop (Suc i) xs"
    using assms(1) by (rule id_take_nth_drop)
  then have "length (filter P xs) = length (filter P (take i xs @ xs ! i # drop (Suc i) xs))"
    by (rule arg_cong)
  then show ?thesis
    using assms by (simp add: upd_conv_take_nth_drop)
qed

lemma filter_update_id:
  assumes "i < length xs" and "\<not> P (xs ! i)" and "\<not> P y"
  shows "filter P (xs[i := y]) = filter P xs"
proof -
  have "filter P xs = filter P (take i xs @ xs ! i # drop (Suc i) xs)"
    using id_take_nth_drop [OF assms(1)] by (rule arg_cong)
  then show ?thesis
    using assms by (simp add: upd_conv_take_nth_drop)
qed

lemma in_use_release:
  assumes "i < length rs" and "\<not> rel_done (rs ! i)" and "rel_done r"
  shows "in_use rs = Suc (in_use (rs[i := r]))"
    and "in_use_by k rs = in_use_by k (rs[i := r]) + (if rel_key (rs ! i) = k then 1 else 0)"
proof -
  show "in_use rs = Suc (in_use (rs[i := r]))"
    unfolding in_use_def using assms by (intro length_filter_update) auto
  show "in_use_by k rs = in_use_by k (rs[i := r]) + (if rel_key (rs ! i) = k then 1 else 0)"
  proof (cases "rel_key (rs ! i) = k")
    case True
    then have "in_use_by k rs = Suc (in_use_by k (rs[i := r]))"
      unfolding in_use_by_def using assms by (intro length_filter_update) auto
    with True show ?thesis by simp
  next
    case False
    then have "in_use_by k (rs[i := r]) = in_use_by k rs"
      unfolding in_use_by_def using assms by (intro arg_cong [of _ _ length] filter_update_id) auto
    with False show ?thesis by simp
  qed
qed

lemma perKey_at_usage [simp]:
  "perKey_at \<lparr>maxTotal = a, maxPerKey = b, total = c, perKey = usage rs\<rparr> k = int (in_use_by k rs)"
  by (simp add: perKey_at_def usage_def)

lemma usage_get [simp]: "(case usage rs k of None \<Rightarrow> 0 | Some n \<Rightarrow> n) = int (in_use_by k rs)"
  by (simp add: usage_def)

lemma usage_acquire: "(usage rs)(k \<mapsto> int (in_use_by k rs) + 1) = usage (rs @ [\<lparr>rel_key = k, rel_done = False\<rparr>])"
  by (auto simp: usage_def fun_eq_iff)

lemma usage_release:
  assumes "i < length rs" and "\<not> rel_done (rs ! i)" and "rel_done r"
  shows "usage (rs[i := r]) =
     (if in_use_by (rel_key (rs ! i)) rs = 1 then (usage rs)(rel_key (rs ! i) := None)
      else (usage rs)(rel_key (rs ! i) \<mapsto> int (in_use_by (rel_key (rs ! i)) rs) - 1))"
  using in_use_release(2) [OF assms] by (auto simp: usage_def fun_eq_iff)

lemma inv_acquire:
  assumes "limiter_sys_inv m p s" and "tryAcquire (sys_limiter s) key = Some (r, l)"
  shows "limiter_sys_inv m p (s\<lparr>sys_limiter := l, sys_releasers := sys_releasers s @ [r]\<rparr>)"
  using assms by (auto simp: limiter_sys_inv_def tryAcquire_def Let_def usage_acquire not_le split: if_splits)

lemma inv_release:
  assumes "limiter_sys_inv m p s" and "i < length (sys_releasers s)"
    and "release (sys_limiter s) (sys_releasers s ! i) = (l, r)"
  shows "limiter_sys_inv m p (s\<lparr>sys_limiter := l, sys_releasers := (sys_releasers s)[i := r]\<rparr>)"
proof (cases "rel_done (sys_releasers s ! i)")
  case True
  with assms(3) have "l = sys_limiter s" "r = sys_releasers s ! i" by (auto simp: release_def)
  with assms(1) show ?thesis by simp
next
  case False
  let ?rs = "sys_releasers s" and ?k = "rel_key (sys_releasers s ! i)"
  have r: "rel_done r" using assms(3) False by (auto simp: release_def Let_def split: if_splits)
  note u = in_use_release [OF assms(2) False r]
  have lim: "sys_limiter s = \<lparr>maxTotal = m, maxPerKey = p, total = int (in_use ?rs), perKey = usage ?rs\<rparr>"
    using assms(1) by (simp add: limiter_sys_inv_def)
  have "l = \<lparr>maxTotal = m, maxPerKey = p, total = int (in_use ?rs) - 1,
            perKey = (if in_use_by ?k ?rs = 1 then (usage ?rs)(?k := None)
                      else (usage ?rs)(?k \<mapsto> int (in_use_by ?k ?rs) - 1))\<rparr>"
    using assms(3) False by (auto simp: release_def lim Let_def perKey_at_total)
  then have l: "l = \<lparr>maxTotal = m, maxPerKey = p, total = int (in_use (?rs[i := r])), perKey = usage (?rs[i := r])\<rparr>"
    using usage_release [OF assms(2) False r] u(1) by simp
  have "int (in_use_by k (?rs[i := r])) \<le> max 0 p" for k
    using assms(1) u(2) [of k] by (auto simp: limiter_sys_inv_def dest!: spec [of _ k] split: if_splits)
  then show ?thesis
    using assms(1) u(1) by (auto simp: limiter_sys_inv_def l)
qed

lemma limiter_sys_inv_init: "limiter_sys_init m p s \<Longrightarrow> limiter_sys_inv m p s"
  by (simp add: limiter_sys_init_def limiter_sys_inv_def newConcurrentLimiter_def in_use_def in_use_by_def usage_def)

interpretation clsys: inductive_invariant "limiter_sys_init m p" limiter_sys_step "limiter_sys_inv m p" for m p
proof unfold_locales
  fix s t
  assume "limiter_sys_inv m p s" and "limiter_sys_step s t"
  then show "limiter_sys_inv m p t"
    by (auto elim!: limiter_sys_step.cases intro: inv_acquire inv_release)
qed (rule limiter_sys_inv_init)

section \<open>Properties\<close>

inductive_simps limiter_sys_step_iff: "limiter_sys_step s t"

definition demo_slot :: "string \<Rightarrow> releaser" where
  "demo_slot k = \<lparr>rel_key = k, rel_done = False\<rparr>"

definition demo_sys :: limiter_sys where
  "demo_sys = \<lparr>sys_limiter = \<lparr>maxTotal = 2, maxPerKey = 1, total = 1, perKey = [''a'' \<mapsto> 1]\<rparr>,
               sys_releasers = [demo_slot ''a'']\<rparr>"

lemma demo_sys_reachable: "reachable (limiter_sys_init 2 1) limiter_sys_step demo_sys"
proof (rule reach_step [OF reach_init])
  let ?s = "\<lparr>sys_limiter = newConcurrentLimiter 2 1, sys_releasers = []\<rparr>"
  show "limiter_sys_init 2 1 ?s" by (simp add: limiter_sys_init_def)
  have "tryAcquire (sys_limiter ?s) ''a'' = Some (demo_slot ''a'', sys_limiter demo_sys)"
    by (simp add: tryAcquire_def newConcurrentLimiter_def demo_sys_def demo_slot_def limiter_key_def perKey_at_def Let_def)
  from sys_acquire [OF this] show "limiter_sys_step ?s demo_sys"
    by (simp add: demo_sys_def)
qed

text \<open>
  C10: However acquisitions and releases interleave, and however often a release closure is
  called, the counters equal the slots in use, and these never exceed the limits in all or for
  one client.
\<close>

theorem limits_never_exceeded:
  assumes "0 \<le> m" and "0 \<le> p" and "reachable (limiter_sys_init m p) limiter_sys_step s"
  shows "total (sys_limiter s) = int (in_use (sys_releasers s)) \<and> int (in_use (sys_releasers s)) \<le> m \<and>
         (\<forall>k. perKey_at (sys_limiter s) k = int (in_use_by k (sys_releasers s)) \<and>
              int (in_use_by k (sys_releasers s)) \<le> p)"
  using clsys.reachable_inv [OF assms(3)] assms(1,2) by (auto simp: limiter_sys_inv_def)

theorem limits_never_exceeded_witness:
  "total (sys_limiter demo_sys) = int (in_use (sys_releasers demo_sys)) \<and> in_use (sys_releasers demo_sys) = 1"
  using limits_never_exceeded [OF _ _ demo_sys_reachable]
  by (simp add: demo_sys_def demo_slot_def in_use_def)

text \<open>
  A request for a slot is granted exactly when a slot is free in all and for that client:
  released slots are never lost and no request is refused without reason.
\<close>

theorem acquire_iff_free:
  assumes "reachable (limiter_sys_init m p) limiter_sys_step s"
  shows "tryAcquire (sys_limiter s) key \<noteq> None \<longleftrightarrow>
           int (in_use (sys_releasers s)) < m \<and> int (in_use_by (limiter_key key) (sys_releasers s)) < p"
  using clsys.reachable_inv [OF assms] by (auto simp: limiter_sys_inv_def tryAcquire_def Let_def)

theorem acquire_iff_free_witness:
  "tryAcquire (sys_limiter demo_sys) ''b'' \<noteq> None \<and> tryAcquire (sys_limiter demo_sys) ''a'' = None"
  using acquire_iff_free [OF demo_sys_reachable, of "''b''"] acquire_iff_free [OF demo_sys_reachable, of "''a''"]
  by (simp add: demo_sys_def demo_slot_def in_use_def in_use_by_def limiter_key_def del: not_None_eq)

text \<open>
  When every slot has been released the limiter is again what it was when new; in
  particular no entry stays behind in the per-client map.
\<close>

theorem drained_limiter_is_new:
  assumes "reachable (limiter_sys_init m p) limiter_sys_step s"
    and "\<forall>r \<in> set (sys_releasers s). rel_done r"
  shows "sys_limiter s = newConcurrentLimiter m p"
proof -
  have "in_use (sys_releasers s) = 0" "in_use_by k (sys_releasers s) = 0" for k
    using assms(2) by (auto simp: in_use_def in_use_by_def)
  then show ?thesis
    using clsys.reachable_inv [OF assms(1)] by (simp add: limiter_sys_inv_def newConcurrentLimiter_def usage_def)
qed

theorem drained_limiter_is_new_witness:
  "fst (release (sys_limiter demo_sys) (demo_slot ''a'')) = newConcurrentLimiter 2 1"
proof -
  define t where "t = demo_sys\<lparr>sys_limiter := fst (release (sys_limiter demo_sys) (demo_slot ''a'')),
                                sys_releasers := [demo_slot ''a''\<lparr>rel_done := True\<rparr>]\<rparr>"
  have r: "release (sys_limiter demo_sys) (sys_releasers demo_sys ! 0) =
      (fst (release (sys_limiter demo_sys) (demo_slot ''a'')), demo_slot ''a''\<lparr>rel_done := True\<rparr>)"
    by (simp add: release_def demo_sys_def demo_slot_def Let_def)
  have "limiter_sys_step demo_sys t"
    using sys_release [OF _ r] by (simp add: t_def demo_sys_def)
  with demo_sys_reachable have "reachable (limiter_sys_init 2 1) limiter_sys_step t"
    by (rule reach_step)
  then have "sys_limiter t = newConcurrentLimiter 2 1"
    by (rule drained_limiter_is_new) (simp add: t_def)
  then show ?thesis by (simp add: t_def)
qed

lemma Accept_accepted:
  assumes "Accept l incoming = (Some (Inr c), l', rest, closed)"
  shows "\<exists>pre others. incoming = pre @ (others, Inr (lc_conn c)) # rest \<and> map snd pre = map Inr closed \<and>
           \<not> lc_once c \<and>
           tryAcquire (others (foldl (\<lambda>lim (f, _). f lim) (ll_limiter l) pre)) (addressHost (conn_remote (lc_conn c)))
             = Some (lc_release c, ll_limiter l')"
  using assms
proof (induction l incoming arbitrary: closed rule: Accept.induct)
  case (3 l others c0 incoming)
  show ?case
  proof (cases "tryAcquire (others (ll_limiter l)) (addressHost (conn_remote c0))")
    case None
    with "3.prems" obtain closed' where
      "Accept (l\<lparr>ll_limiter := others (ll_limiter l)\<rparr>) incoming = (Some (Inr c), l', rest, closed')"
      and cl: "closed = c0 # closed'"
      by (auto simp: Let_def split: prod.splits)
    with "3.IH" [OF refl] None obtain pre o2 where
      "incoming = pre @ (o2, Inr (lc_conn c)) # rest" "map snd pre = map Inr closed'" "\<not> lc_once c"
      "tryAcquire (o2 (foldl (\<lambda>lim (f, _). f lim) (others (ll_limiter l)) pre)) (addressHost (conn_remote (lc_conn c)))
         = Some (lc_release c, ll_limiter l')"
      by fastforce
    with cl show ?thesis
      by (intro exI [of _ "(others, Inr c0) # pre"] exI [of _ o2]) simp
  next
    case (Some rl)
    with "3.prems" show ?thesis
      by (intro exI [of _ "[]"] exI [of _ others]) (auto simp: Let_def split: prod.splits)
  qed
qed auto

lemma Accept_closed_full:
  assumes "Accept l incoming = (res, l', rest, closed)" and "i < length closed"
  shows "tryAcquire (foldl (\<lambda>lim (f, _). f lim) (ll_limiter l) (take (Suc i) incoming))
           (addressHost (conn_remote (closed ! i))) = None"
  using assms
proof (induction l incoming arbitrary: closed i rule: Accept.induct)
  case (3 l others c0 incoming)
  show ?case
  proof (cases "tryAcquire (others (ll_limiter l)) (addressHost (conn_remote c0))")
    case None
    with "3.prems" obtain closed' where
      a: "Accept (l\<lparr>ll_limiter := others (ll_limiter l)\<rparr>) incoming = (res, l', rest, closed')"
      and cl: "closed = c0 # closed'"
      by (auto simp: Let_def split: prod.splits)
    show ?thesis
    proof (cases i)
      case 0
      with None cl show ?thesis by simp
    next
      case (Suc j)
      with "3.IH" [OF refl _ a, of j] None cl "3.prems"(2) show ?thesis by simp
    qed
  next
    case (Some rl)
    with "3.prems" show ?thesis by (auto simp: Let_def split: prod.splits)
  qed
qed auto

text \<open>
  C34: \<^verbatim>\<open>Accept\<close> hands out a connection only with a slot acquired for its address, closes exactly
  the connections before it, and each of those only because the limits were exhausted when it
  arrived.
\<close>

theorem accept_enforces_limits:
  assumes "Accept l incoming = (Some (Inr c), l', rest, closed)"
  shows "(\<exists>pre others. incoming = pre @ (others, Inr (lc_conn c)) # rest \<and> map snd pre = map Inr closed \<and>
           tryAcquire (others (foldl (\<lambda>lim (f, _). f lim) (ll_limiter l) pre)) (addressHost (conn_remote (lc_conn c)))
             = Some (lc_release c, ll_limiter l')) \<and>
         (\<forall>i < length closed.
            tryAcquire (foldl (\<lambda>lim (f, _). f lim) (ll_limiter l) (take (Suc i) incoming))
              (addressHost (conn_remote (closed ! i))) = None)"
  using Accept_accepted [OF assms] Accept_closed_full [OF assms] by blast

definition demo_conn :: "nat \<Rightarrow> string \<Rightarrow> net_conn" where
  "demo_conn i remote = \<lparr>conn_id = i, conn_remote = remote, conn_closeErr = None, conn_closeWrite = None\<rparr>"

theorem accept_enforces_limits_witness:
  "\<exists>c l'. Accept \<lparr>ll_limiter = sys_limiter demo_sys\<rparr>
      [(id, Inr (demo_conn 1 ''a'')), (id, Inr (demo_conn 2 ''b''))] = (Some (Inr c), l', [], [demo_conn 1 ''a'']) \<and>
      tryAcquire (sys_limiter demo_sys) ''a'' = None"
proof -
  have h: "addressHost ''a'' = ''a''" "addressHost ''b'' = ''b''" by code_simp+
  obtain c l' where A: "Accept \<lparr>ll_limiter = sys_limiter demo_sys\<rparr>
      [(id, Inr (demo_conn 1 ''a'')), (id, Inr (demo_conn 2 ''b''))] = (Some (Inr c), l', [], [demo_conn 1 ''a''])"
    by (simp add: demo_conn_def demo_sys_def demo_slot_def h tryAcquire_def limiter_key_def perKey_at_def Let_def)
  with accept_enforces_limits [OF A] show ?thesis
    by (simp add: demo_conn_def h)
qed

text \<open>
  Closing an accepted connection gives its slot back once, and closing it again, any number
  of times, changes no counter.
\<close>

theorem close_returns_slot_once:
  assumes "tryAcquire lim key = Some (rel, ll_limiter l)" and "lc_release c = rel" and "\<not> lc_once c"
    and "limitedConn_Close l c = (e, l1, c1)" and "limitedConn_Close l2 c1 = (e2, l3, c2)"
  shows "total (ll_limiter l1) = total lim \<and> (\<forall>k. perKey_at (ll_limiter l1) k = perKey_at lim k) \<and>
         l3 = l2 \<and> e = conn_closeErr (lc_conn c) \<and> e2 = e"
proof -
  obtain lim' rel' where r: "release (ll_limiter l) rel = (lim', rel')" by fastforce
  with assms(2-4) have c1: "ll_limiter l1 = lim'" "lc_once c1" "lc_conn c1 = lc_conn c" "e = conn_closeErr (lc_conn c)"
    by (auto simp: limitedConn_Close_def Let_def)
  have "total lim' = total lim" "\<forall>k. perKey_at lim' k = perKey_at lim k"
    using cl.acquire_give_back [OF assms(1) r] by auto
  with c1 assms(5) show ?thesis
    by (auto simp: limitedConn_Close_def Let_def)
qed

theorem close_returns_slot_once_witness:
  "\<exists>e l1 c1. limitedConn_Close \<lparr>ll_limiter = sys_limiter demo_sys\<rparr>
      \<lparr>lc_conn = demo_conn 1 ''a'', lc_release = demo_slot ''a'', lc_once = False\<rparr> = (e, l1, c1) \<and>
      total (ll_limiter l1) = 0"
proof -
  let ?c = "\<lparr>lc_conn = demo_conn 1 ''a'', lc_release = demo_slot ''a'', lc_once = False\<rparr>"
  have a: "tryAcquire (newConcurrentLimiter 2 1) ''a'' =
      Some (demo_slot ''a'', ll_limiter \<lparr>ll_limiter = sys_limiter demo_sys\<rparr>)"
    by (simp add: tryAcquire_def newConcurrentLimiter_def demo_sys_def demo_slot_def limiter_key_def
        perKey_at_def Let_def)
  obtain e l1 c1 where c: "limitedConn_Close \<lparr>ll_limiter = sys_limiter demo_sys\<rparr> ?c = (e, l1, c1)"
    by (metis prod_cases3)
  obtain e2 l3 c2 where c2: "limitedConn_Close l1 c1 = (e2, l3, c2)"
    by (metis prod_cases3)
  from close_returns_slot_once [OF a _ _ c c2] have "total (ll_limiter l1) = 0"
    by (simp add: newConcurrentLimiter_def)
  with c show ?thesis by blast
qed

end
