(* ===== verification/Config.thy ===== *)
theory Config
  imports Go_Net
begin

text \<open>
  Configuration, \<^verbatim>\<open>internal/config/config.go\<close>: defaults, environment overrides, validation and
  the upstream URL checks.

  Parameters: the YAML decoder (\<open>decode_first\<close> and \<open>decode_next\<close>, the two calls of
  \<^verbatim>\<open>decoder.Decode\<close>), the file system (\<open>open_file\<close>), the environment (\<open>getenv\<close>),
  \<^verbatim>\<open>url.Parse\<close> (\<open>parse\<close>, \<open>None\<close> on error) and \<^verbatim>\<open>time.ParseDuration\<close>
  (\<open>parse_duration\<close>, which uses floating point).  \<open>validateConfig\<close> returns the configuration it
  normalised in place together with the error.
\<close>

section \<open>Data\<close>

definition DirectUpstream :: string where
  "DirectUpstream = ''direct''"

record Config =
  ProxyAddr :: string
  Username :: string
  Password :: string
  Proto :: string
  CertPath :: string
  KeyPath :: string
  UpstreamProxy :: string
  Network :: string
  LogSensitiveData :: bool
  PrivacyMode :: bool
  MaxConnections :: int
  MaxConnectionsPerIP :: int
  MaxTunnels :: int
  MaxTunnelsPerIP :: int
  HTTP2MaxConcurrentStreams :: int
  MaxIdleConns :: int
  MaxIdleConnsPerHost :: int
  MaxHeaderBytes :: int
  AuthMaxFailures :: int
  AllowPrivateDestinations :: bool
  BlockedDestinationPorts :: "int list"
  DialTimeout :: duration
  TLSHandshakeTimeout :: duration
  TLSReloadInterval :: duration
  ResponseHeaderTimeout :: duration
  IdleConnTimeout :: duration
  ReadHeaderTimeout :: duration
  IdleTimeout :: duration
  TunnelIdleTimeout :: duration
  HTTP2SendPingTimeout :: duration
  HTTP2PingTimeout :: duration
  HTTP2WriteByteTimeout :: duration
  AuthFailureWindow :: duration
  AuthBlockDuration :: duration
  ShutdownTimeout :: duration

datatype yaml_kind = ScalarNode | OtherNode

record yaml_node =
  node_Kind :: yaml_kind
  node_Tag :: string
  node_Value :: string

definition UnmarshalYAML :: "(string \<Rightarrow> duration option) \<Rightarrow> yaml_node \<Rightarrow> err + duration" where
  "UnmarshalYAML parse_duration node =
     (if node_Kind node \<noteq> ScalarNode \<or> node_Tag node \<noteq> ''!!str''
      then Inl (New ''duration must be a string such as 500ms, 10s, or 2m'')
      else case parse_duration (node_Value node) of
             None \<Rightarrow> Inl (Errorf ''time: invalid duration %q'' [node_Value node])
           | Some value \<Rightarrow> Inr value)"

definition defaultConfig :: Config where
  "defaultConfig =
     \<lparr>ProxyAddr = ''127.0.0.1:8080'', Username = '''', Password = '''', Proto = ''http'',
      CertPath = '''', KeyPath = '''', UpstreamProxy = '''', Network = ''auto'',
      LogSensitiveData = False, PrivacyMode = False,
      MaxConnections = 1024, MaxConnectionsPerIP = 128, MaxTunnels = 256, MaxTunnelsPerIP = 128,
      HTTP2MaxConcurrentStreams = 0, MaxIdleConns = 100, MaxIdleConnsPerHost = 10,
      MaxHeaderBytes = 65536, AuthMaxFailures = 10, AllowPrivateDestinations = False,
      BlockedDestinationPorts = [21, 22, 23, 25, 110, 111, 135, 137, 138, 139, 445, 1433, 2049,
        2375, 2376, 3306, 3389, 5432, 5900, 6379, 9200, 11211, 27017],
      DialTimeout = 10 * Second, TLSHandshakeTimeout = 10 * Second, TLSReloadInterval = Minute,
      ResponseHeaderTimeout = 30 * Second, IdleConnTimeout = 90 * Second,
      ReadHeaderTimeout = 15 * Second, IdleTimeout = 2 * Minute, TunnelIdleTimeout = 10 * Minute,
      HTTP2SendPingTimeout = Minute, HTTP2PingTimeout = 15 * Second,
      HTTP2WriteByteTimeout = 30 * Second, AuthFailureWindow = Minute,
      AuthBlockDuration = 5 * Minute, ShutdownTimeout = 15 * Second\<rparr>"

definition Default :: Config where
  "Default = defaultConfig"

section \<open>Networks, addresses and upstream URLs\<close>

definition DialNetwork :: "string \<Rightarrow> err + string" where
  "DialNetwork network =
     (if network = ''auto'' then Inr ''tcp''
      else if network = ''tcp4'' \<or> network = ''tcp6'' then Inr network
      else Inl (Errorf ''network must be auto, tcp4, or tcp6, got %q'' [network]))"

definition port_in_range :: "string \<Rightarrow> bool" where
  "port_in_range text = (case Atoi text of None \<Rightarrow> False | Some port \<Rightarrow> 1 \<le> port \<and> port \<le> 65535)"

definition validateListenAddress :: "string \<Rightarrow> err option" where
  "validateListenAddress address =
     (case SplitHostPort address of
        Inl e \<Rightarrow> Some e
      | Inr (_, portText) \<Rightarrow>
          if \<not> port_in_range portText then Some (New ''port must be between 1 and 65535'') else None)"

definition ProxyAddress :: "url \<Rightarrow> err + string" where
  "ProxyAddress proxyURL =
     (let host = Hostname proxyURL in
      if host = '''' then Inl (New ''host is required'')
      else
        let join = (\<lambda>port. if \<not> port_in_range port then Inl (New ''port must be between 1 and 65535'')
                           else Inr (JoinHostPort host port))
        in
        if Port proxyURL = '''' then
          (if url_Scheme proxyURL = ''http'' then join ''80''
           else if url_Scheme proxyURL = ''https'' then join ''443''
           else Inl (New ''scheme must be http or https''))
        else join (Port proxyURL))"

definition ParseProxyURL :: "(string \<Rightarrow> url option) \<Rightarrow> string \<Rightarrow> err + url" where
  "ParseProxyURL parse rawURL =
     (case parse rawURL of
        None \<Rightarrow> Inl (New ''URL cannot be parsed'')
      | Some u \<Rightarrow>
          let u = u\<lparr>url_Scheme := ToLower (url_Scheme u)\<rparr> in
          if url_Scheme u \<noteq> ''http'' \<and> url_Scheme u \<noteq> ''https'' then Inl (New ''scheme must be http or https'')
          else if Hostname u = '''' then Inl (New ''host is required'')
          else if url_Path u \<noteq> '''' \<and> url_Path u \<noteq> ''/'' then Inl (New ''path is not allowed'')
          else if url_RawQuery u \<noteq> '''' \<or> url_Fragment u \<noteq> '''' then Inl (New ''query and fragment are not allowed'')
          else case ProxyAddress u of Inl e \<Rightarrow> Inl e | Inr _ \<Rightarrow> Inr u)"

section \<open>Environment overrides\<close>

definition ParseBool :: "string \<Rightarrow> bool option" where
  "ParseBool s =
     (if s \<in> {''1'', ''t'', ''T'', ''true'', ''TRUE'', ''True''} then Some True
      else if s \<in> {''0'', ''f'', ''F'', ''false'', ''FALSE'', ''False''} then Some False else None)"

fun parsePorts :: "string list \<Rightarrow> err + int list" where
  "parsePorts [] = Inr []"
| "parsePorts (part # parts) =
     (case Atoi (TrimSpace part) of
        None \<Rightarrow> Inl (Errorf ''invalid port %q'' [TrimSpace part])
      | Some port \<Rightarrow> (case parsePorts parts of Inl e \<Rightarrow> Inl e | Inr ports \<Rightarrow> Inr (port # ports)))"

definition parsePortList :: "string \<Rightarrow> err + int list" where
  "parsePortList value =
     (if EqualFold (TrimSpace value) ''none'' then Inr [] else parsePorts (Split value CHR '',''))"

definition override_string :: "(string \<Rightarrow> string) \<Rightarrow> string \<Rightarrow> ((string \<Rightarrow> string) \<Rightarrow> Config \<Rightarrow> Config) \<Rightarrow> Config \<Rightarrow> Config" where
  "override_string getenv name upd c = (if getenv name \<noteq> '''' then upd (\<lambda>_. getenv name) c else c)"

text \<open>A loop over a table of overrides: a variable name and the field it writes.\<close>

fun override_all ::
  "(string \<Rightarrow> string) \<Rightarrow> (string \<Rightarrow> 'v option) \<Rightarrow> (string \<times> (('v \<Rightarrow> 'v) \<Rightarrow> Config \<Rightarrow> Config)) list
     \<Rightarrow> Config \<Rightarrow> err + Config" where
  "override_all getenv parse [] c = Inr c"
| "override_all getenv parse ((name, upd) # rest) c =
     (if getenv name = '''' then override_all getenv parse rest c
      else case parse (getenv name) of
             None \<Rightarrow> Inl (Wrapf ''parse %s: %w'' [name] (Errorf ''invalid value %q'' [getenv name]))
           | Some v \<Rightarrow> override_all getenv parse rest (upd (\<lambda>_. v) c))"

definition boolOverrides :: "(string \<times> ((bool \<Rightarrow> bool) \<Rightarrow> Config \<Rightarrow> Config)) list" where
  "boolOverrides =
     [(''PROXY_LOG_SENSITIVE_DATA'', LogSensitiveData_update),
      (''PROXY_PRIVACY_MODE'', PrivacyMode_update),
      (''PROXY_ALLOW_PRIVATE_DESTINATIONS'', AllowPrivateDestinations_update)]"

definition intOverrides :: "(string \<times> ((int \<Rightarrow> int) \<Rightarrow> Config \<Rightarrow> Config)) list" where
  "intOverrides =
     [(''PROXY_MAX_CONNECTIONS'', MaxConnections_update),
      (''PROXY_MAX_CONNECTIONS_PER_IP'', MaxConnectionsPerIP_update),
      (''PROXY_MAX_TUNNELS'', MaxTunnels_update),
      (''PROXY_MAX_TUNNELS_PER_IP'', MaxTunnelsPerIP_update),
      (''PROXY_HTTP2_MAX_CONCURRENT_STREAMS'', HTTP2MaxConcurrentStreams_update),
      (''PROXY_MAX_IDLE_CONNS'', MaxIdleConns_update),
      (''PROXY_MAX_IDLE_CONNS_PER_HOST'', MaxIdleConnsPerHost_update),
      (''PROXY_MAX_HEADER_BYTES'', MaxHeaderBytes_update),
      (''PROXY_AUTH_MAX_FAILURES'', AuthMaxFailures_update)]"

definition durationOverrides :: "(string \<times> ((duration \<Rightarrow> duration) \<Rightarrow> Config \<Rightarrow> Config)) list" where
  "durationOverrides =
     [(''PROXY_DIAL_TIMEOUT'', DialTimeout_update),
      (''PROXY_TLS_HANDSHAKE_TIMEOUT'', TLSHandshakeTimeout_update),
      (''PROXY_TLS_RELOAD_INTERVAL'', TLSReloadInterval_update),
      (''PROXY_RESPONSE_HEADER_TIMEOUT'', ResponseHeaderTimeout_update),
      (''PROXY_IDLE_CONN_TIMEOUT'', IdleConnTimeout_update),
      (''PROXY_READ_HEADER_TIMEOUT'', ReadHeaderTimeout_update),
      (''PROXY_IDLE_TIMEOUT'', IdleTimeout_update),
      (''PROXY_TUNNEL_IDLE_TIMEOUT'', TunnelIdleTimeout_update),
      (''PROXY_HTTP2_SEND_PING_TIMEOUT'', HTTP2SendPingTimeout_update),
      (''PROXY_HTTP2_PING_TIMEOUT'', HTTP2PingTimeout_update),
      (''PROXY_HTTP2_WRITE_BYTE_TIMEOUT'', HTTP2WriteByteTimeout_update),
      (''PROXY_AUTH_FAILURE_WINDOW'', AuthFailureWindow_update),
      (''PROXY_AUTH_BLOCK_DURATION'', AuthBlockDuration_update),
      (''PROXY_SHUTDOWN_TIMEOUT'', ShutdownTimeout_update)]"

definition applyEnvOverrides ::
  "(string \<Rightarrow> duration option) \<Rightarrow> (string \<Rightarrow> string) \<Rightarrow> Config \<Rightarrow> err + Config" where
  "applyEnvOverrides parse_duration getenv c =
     (let c = override_string getenv ''PROXY_ADDR'' ProxyAddr_update c;
          c = override_string getenv ''PROXY_USERNAME'' Username_update c;
          c = override_string getenv ''PROXY_PASSWORD'' Password_update c;
          c = override_string getenv ''PROXY_PROTO'' Proto_update c;
          c = override_string getenv ''PROXY_CERT_PATH'' CertPath_update c;
          c = override_string getenv ''PROXY_KEY_PATH'' KeyPath_update c;
          c = override_string getenv ''PROXY_UPSTREAM_PROXY'' UpstreamProxy_update c;
          c = override_string getenv ''PROXY_NETWORK'' Network_update c
      in case override_all getenv ParseBool boolOverrides c of Inl e \<Rightarrow> Inl e | Inr c \<Rightarrow>
         case override_all getenv Atoi intOverrides c of Inl e \<Rightarrow> Inl e | Inr c \<Rightarrow>
         case (if getenv ''PROXY_BLOCKED_DESTINATION_PORTS'' = '''' then Inr c
               else case parsePortList (getenv ''PROXY_BLOCKED_DESTINATION_PORTS'') of
                      Inl e \<Rightarrow> Inl (Wrapf ''parse PROXY_BLOCKED_DESTINATION_PORTS: %w'' [] e)
                    | Inr ports \<Rightarrow> Inr (c\<lparr>BlockedDestinationPorts := ports\<rparr>)) of Inl e \<Rightarrow> Inl e | Inr c \<Rightarrow>
         override_all getenv parse_duration durationOverrides c)"

section \<open>Validation\<close>

definition first_bad :: "(int \<Rightarrow> bool) \<Rightarrow> string \<Rightarrow> (string \<times> int) list \<Rightarrow> err option" where
  "first_bad ok fmt limits =
     (case find (\<lambda>(_, v). \<not> ok v) limits of None \<Rightarrow> None | Some (name, _) \<Rightarrow> Some (Errorf fmt [name]))"

definition validated_durations :: "Config \<Rightarrow> (string \<times> duration) list" where
  "validated_durations c =
     [(''dial_timeout'', DialTimeout c), (''tls_handshake_timeout'', TLSHandshakeTimeout c),
      (''tls_reload_interval'', TLSReloadInterval c), (''response_header_timeout'', ResponseHeaderTimeout c),
      (''idle_conn_timeout'', IdleConnTimeout c), (''read_header_timeout'', ReadHeaderTimeout c),
      (''idle_timeout'', IdleTimeout c), (''tunnel_idle_timeout'', TunnelIdleTimeout c),
      (''auth_failure_window'', AuthFailureWindow c), (''auth_block_duration'', AuthBlockDuration c),
      (''shutdown_timeout'', ShutdownTimeout c)]"

definition positiveLimits :: "Config \<Rightarrow> (string \<times> int) list" where
  "positiveLimits c =
     [(''max_connections'', MaxConnections c), (''max_connections_per_ip'', MaxConnectionsPerIP c),
      (''max_tunnels'', MaxTunnels c), (''max_tunnels_per_ip'', MaxTunnelsPerIP c),
      (''max_idle_conns'', MaxIdleConns c), (''max_idle_conns_per_host'', MaxIdleConnsPerHost c),
      (''max_header_bytes'', MaxHeaderBytes c), (''auth_max_failures'', AuthMaxFailures c)]"

definition http2_durations :: "Config \<Rightarrow> (string \<times> duration) list" where
  "http2_durations c =
     [(''http2_send_ping_timeout'', HTTP2SendPingTimeout c), (''http2_ping_timeout'', HTTP2PingTimeout c),
      (''http2_write_byte_timeout'', HTTP2WriteByteTimeout c)]"

fun check_ports :: "int set \<Rightarrow> int list \<Rightarrow> err option" where
  "check_ports seen [] = None"
| "check_ports seen (port # ports) =
     (if port < 1 \<or> 65535 < port then Some (Errorf ''blocked_destination_ports contains invalid port %d'' [Itoa port])
      else if port \<in> seen then Some (Errorf ''blocked_destination_ports contains duplicate port %d'' [Itoa port])
      else check_ports (insert port seen) ports)"

text \<open>The checks between the normalisation of the network and that of the upstream, in order.\<close>

definition validate_limits :: "Config \<Rightarrow> err option" where
  "validate_limits c =
     (case validateListenAddress (ProxyAddr c) of Some e \<Rightarrow> Some (Wrapf ''invalid proxy_addr: %w'' [] e) | None \<Rightarrow>
      if Proto c = ''https'' \<and> (CertPath c = '''' \<or> KeyPath c = '''')
      then Some (New ''cert_path and key_path are required when proto is https'')
      else case first_bad (\<lambda>v. 0 < v) ''%s must be greater than zero'' (positiveLimits c) of Some e \<Rightarrow> Some e | None \<Rightarrow>
      if MaxConnections c < MaxConnectionsPerIP c then Some (New ''max_connections_per_ip cannot exceed max_connections'')
      else if MaxTunnels c < MaxTunnelsPerIP c then Some (New ''max_tunnels_per_ip cannot exceed max_tunnels'')
      else if HTTP2MaxConcurrentStreams c < 0 then Some (New ''http2_max_concurrent_streams must be zero or greater'')
      else if 0 < HTTP2MaxConcurrentStreams c \<and>
           (MaxTunnels c < HTTP2MaxConcurrentStreams c \<or> MaxTunnelsPerIP c < HTTP2MaxConcurrentStreams c)
      then Some (New ''http2_max_concurrent_streams cannot exceed tunnel limits'')
      else case first_bad (\<lambda>v. 0 \<le> v) ''%s must be zero or greater'' (http2_durations c) of Some e \<Rightarrow> Some e | None \<Rightarrow>
      case check_ports {} (BlockedDestinationPorts c) of Some e \<Rightarrow> Some e | None \<Rightarrow>
      first_bad (\<lambda>v. 0 < v) ''%s must be greater than zero'' (validated_durations c))"

definition validateConfig :: "(string \<Rightarrow> url option) \<Rightarrow> Config \<Rightarrow> Config \<times> err option" where
  "validateConfig parse config =
     (let c = config\<lparr>Proto := ToLower (TrimSpace (Proto config))\<rparr> in
      if Proto c \<noteq> ''http'' \<and> Proto c \<noteq> ''https''
      then (c, Some (Errorf ''proto must be http or https, got %q'' [Proto c]))
      else
        let c = c\<lparr>Network := ToLower (TrimSpace (Network c))\<rparr> in
        case DialNetwork (Network c) of Inl e \<Rightarrow> (c, Some e) | Inr _ \<Rightarrow>
        case validate_limits c of Some e \<Rightarrow> (c, Some e) | None \<Rightarrow>
        if EqualFold (TrimSpace (UpstreamProxy c)) DirectUpstream then (c\<lparr>UpstreamProxy := DirectUpstream\<rparr>, None)
        else if UpstreamProxy c \<noteq> '''' then
          (case ParseProxyURL parse (UpstreamProxy c) of
             Inl e \<Rightarrow> (c, Some (Wrapf ''invalid upstream_proxy: %w'' [] e))
           | Inr _ \<Rightarrow> (c, None))
        else (c, None))"

section \<open>Loading\<close>

definition decodeConfig ::
  "(string \<Rightarrow> Config \<Rightarrow> err + Config) \<Rightarrow> (string \<Rightarrow> err option) \<Rightarrow> string \<Rightarrow> err + Config" where
  "decodeConfig decode_first decode_next content =
     (case decode_first content defaultConfig of
        Inl e \<Rightarrow> Inl (Wrapf ''parse config: %w'' [] e)
      | Inr config \<Rightarrow>
          (case decode_next content of
             None \<Rightarrow> Inl (New ''parse config: multiple YAML documents are not supported'')
           | Some e \<Rightarrow> if errors_Is e EOF then Inr config else Inl (Wrapf ''parse config: %w'' [] e)))"

definition Load ::
  "(string \<Rightarrow> err + string) \<Rightarrow> (string \<Rightarrow> Config \<Rightarrow> err + Config) \<Rightarrow> (string \<Rightarrow> err option) \<Rightarrow>
   (string \<Rightarrow> duration option) \<Rightarrow> (string \<Rightarrow> url option) \<Rightarrow> (string \<Rightarrow> string) \<Rightarrow> string \<Rightarrow> err + Config" where
  "Load open_file decode_first decode_next parse_duration parse getenv path =
     (case open_file path of
        Inl e \<Rightarrow> Inl (Wrapf ''read config: %w'' [] e)
      | Inr content \<Rightarrow>
          case decodeConfig decode_first decode_next content of Inl e \<Rightarrow> Inl e | Inr c \<Rightarrow>
          case applyEnvOverrides parse_duration getenv c of Inl e \<Rightarrow> Inl e | Inr c \<Rightarrow>
          case validateConfig parse c of (c, Some e) \<Rightarrow> Inl e | (c, None) \<Rightarrow> Inr c)"

section \<open>What validation accepts\<close>

text \<open>The declarative requirements on a normalised configuration.\<close>

definition config_valid :: "(string \<Rightarrow> url option) \<Rightarrow> Config \<Rightarrow> bool" where
  "config_valid parse c \<longleftrightarrow>
     Proto c \<in> {''http'', ''https''} \<and> Network c \<in> {''auto'', ''tcp4'', ''tcp6''} \<and>
     (\<exists>host port n. SplitHostPort (ProxyAddr c) = Inr (host, port) \<and> Atoi port = Some n \<and> n \<in> {1..65535}) \<and>
     (Proto c = ''https'' \<longrightarrow> CertPath c \<noteq> '''' \<and> KeyPath c \<noteq> '''') \<and>
     0 < MaxConnectionsPerIP c \<and> MaxConnectionsPerIP c \<le> MaxConnections c \<and>
     0 < MaxTunnelsPerIP c \<and> MaxTunnelsPerIP c \<le> MaxTunnels c \<and>
     0 \<le> HTTP2MaxConcurrentStreams c \<and> HTTP2MaxConcurrentStreams c \<le> MaxTunnelsPerIP c \<and>
     0 < MaxIdleConns c \<and> 0 < MaxIdleConnsPerHost c \<and> 0 < MaxHeaderBytes c \<and> 0 < AuthMaxFailures c \<and>
     0 \<le> HTTP2SendPingTimeout c \<and> 0 \<le> HTTP2PingTimeout c \<and> 0 \<le> HTTP2WriteByteTimeout c \<and>
     distinct (BlockedDestinationPorts c) \<and> set (BlockedDestinationPorts c) \<subseteq> {1..65535} \<and>
     0 < DialTimeout c \<and> 0 < TLSHandshakeTimeout c \<and> 0 < TLSReloadInterval c \<and>
     0 < ResponseHeaderTimeout c \<and> 0 < IdleConnTimeout c \<and> 0 < ReadHeaderTimeout c \<and>
     0 < IdleTimeout c \<and> 0 < TunnelIdleTimeout c \<and> 0 < AuthFailureWindow c \<and>
     0 < AuthBlockDuration c \<and> 0 < ShutdownTimeout c \<and>
     (UpstreamProxy c \<in> {'''', ''direct''} \<or> (\<exists>u. ParseProxyURL parse (UpstreamProxy c) = Inr u))"

definition normalized :: "Config \<Rightarrow> Config" where
  "normalized c =
     c\<lparr>Proto := ToLower (TrimSpace (Proto c)), Network := ToLower (TrimSpace (Network c)),
       UpstreamProxy := (if EqualFold (TrimSpace (UpstreamProxy c)) ''direct'' then ''direct'' else UpstreamProxy c)\<rparr>"

lemma first_bad_None: "first_bad ok fmt xs = None \<longleftrightarrow> (\<forall>(n, v) \<in> set xs. ok v)"
  by (induction xs) (auto simp: first_bad_def)

lemma check_ports_None:
  "check_ports seen ps = None \<longleftrightarrow> set ps \<subseteq> {1..65535} \<and> distinct ps \<and> set ps \<inter> seen = {}"
  by (induction seen ps rule: check_ports.induct) auto

lemma port_in_range_iff: "port_in_range p \<longleftrightarrow> (\<exists>n. Atoi p = Some n \<and> n \<in> {1..65535})"
  by (auto simp: port_in_range_def split: option.splits)

lemma validateListenAddress_None:
  "validateListenAddress a = None \<longleftrightarrow>
     (\<exists>h p n. SplitHostPort a = Inr (h, p) \<and> Atoi p = Some n \<and> n \<in> {1..65535})"
  by (auto simp: validateListenAddress_def port_in_range_iff split: sum.splits)

lemma DialNetwork_Inr: "(\<exists>n. DialNetwork s = Inr n) \<longleftrightarrow> s \<in> {''auto'', ''tcp4'', ''tcp6''}"
  by (auto simp: DialNetwork_def)

lemma validate_limits_None:
  "validate_limits c = None \<longleftrightarrow>
     validateListenAddress (ProxyAddr c) = None \<and>
     (Proto c = ''https'' \<longrightarrow> CertPath c \<noteq> '''' \<and> KeyPath c \<noteq> '''') \<and>
     (\<forall>(n, v) \<in> set (positiveLimits c). 0 < v) \<and>
     MaxConnectionsPerIP c \<le> MaxConnections c \<and> MaxTunnelsPerIP c \<le> MaxTunnels c \<and>
     0 \<le> HTTP2MaxConcurrentStreams c \<and>
     (0 < HTTP2MaxConcurrentStreams c \<longrightarrow> HTTP2MaxConcurrentStreams c \<le> MaxTunnels c \<and>
        HTTP2MaxConcurrentStreams c \<le> MaxTunnelsPerIP c) \<and>
     (\<forall>(n, v) \<in> set (http2_durations c). 0 \<le> v) \<and>
     set (BlockedDestinationPorts c) \<subseteq> {1..65535} \<and> distinct (BlockedDestinationPorts c) \<and>
     (\<forall>(n, v) \<in> set (validated_durations c). 0 < v)"
proof -
  have s: "(case x of None \<Rightarrow> y | Some e \<Rightarrow> Some (f e)) = None \<longleftrightarrow> x = None \<and> y = None"
    "(case x of None \<Rightarrow> y | Some e \<Rightarrow> Some e) = None \<longleftrightarrow> x = None \<and> y = None"
    "(if b then Some e else y) = None \<longleftrightarrow> \<not> b \<and> y = None"
    for x :: "err option" and y f b e by (auto split: option.splits)
  show ?thesis
    unfolding validate_limits_def s first_bad_None check_ports_None by (auto simp: not_less)
qed

lemma validate_limits_upstream [simp]:
  "validate_limits (c\<lparr>UpstreamProxy := u\<rparr>) = validate_limits c"
  by (simp add: validate_limits_def positiveLimits_def http2_durations_def validated_durations_def
      cong: option.case_cong if_cong)

lemma config_valid_iff_checks:
  "config_valid parse c \<longleftrightarrow>
     Proto c \<in> {''http'', ''https''} \<and> Network c \<in> {''auto'', ''tcp4'', ''tcp6''} \<and> validate_limits c = None \<and>
     (UpstreamProxy c \<in> {'''', ''direct''} \<or> (\<exists>u. ParseProxyURL parse (UpstreamProxy c) = Inr u))"
  unfolding config_valid_def validate_limits_None validateListenAddress_None positiveLimits_def
    http2_durations_def validated_durations_def by auto

lemma direct_fold [simp]: "EqualFold (TrimSpace ''direct'') ''direct''"
  by code_simp

lemma not_direct: "\<not> EqualFold (TrimSpace s) ''direct'' \<Longrightarrow> s \<noteq> ''direct''"
  by auto

lemma validateConfig_iff:
  "validateConfig parse c = (c', None) \<longleftrightarrow> c' = normalized c \<and> config_valid parse (normalized c)"
proof -
  define d where "d = c\<lparr>Proto := ToLower (TrimSpace (Proto c)), Network := ToLower (TrimSpace (Network c))\<rparr>"
  have n: "normalized c = d\<lparr>UpstreamProxy :=
      (if EqualFold (TrimSpace (UpstreamProxy c)) ''direct'' then ''direct'' else UpstreamProxy c)\<rparr>"
    by (simp add: normalized_def d_def)
  have u: "UpstreamProxy d = UpstreamProxy c" "Proto d = ToLower (TrimSpace (Proto c))"
    "Network d = ToLower (TrimSpace (Network c))" by (simp_all add: d_def)
  have id: "d\<lparr>UpstreamProxy := UpstreamProxy c\<rparr> = d" by (simp add: d_def)
  have v: "validateConfig parse c = (c', None) \<longleftrightarrow>
      Proto d \<in> {''http'', ''https''} \<and> Network d \<in> {''auto'', ''tcp4'', ''tcp6''} \<and> validate_limits d = None \<and>
      (if EqualFold (TrimSpace (UpstreamProxy c)) ''direct'' then c' = d\<lparr>UpstreamProxy := ''direct''\<rparr>
       else c' = d \<and> (UpstreamProxy c = '''' \<or> (\<exists>x. ParseProxyURL parse (UpstreamProxy c) = Inr x)))"
  proof -
    have p: "(if b then (x, Some e) else y) = (c', None) \<longleftrightarrow> \<not> b \<and> y = (c', None)"
      "(case o1 of None \<Rightarrow> y | Some e \<Rightarrow> (x, Some e)) = (c', None) \<longleftrightarrow> o1 = None \<and> y = (c', None)"
      "(case r1 of Inl e \<Rightarrow> (x, Some e) | Inr _ \<Rightarrow> y) = (c', None) \<longleftrightarrow> (\<exists>z. r1 = Inr z) \<and> y = (c', None)"
      "(case r2 of Inl e \<Rightarrow> (x, Some (f e)) | Inr _ \<Rightarrow> y) = (c', None) \<longleftrightarrow> (\<exists>z. r2 = Inr z) \<and> y = (c', None)"
      for b e x y o1 f and r1 :: "err + string" and r2 :: "err + url"
      by (auto split: option.splits sum.splits)
    have f: "c\<lparr>Proto := ToLower (TrimSpace (Proto c)),
        Network := ToLower (TrimSpace (Network (c\<lparr>Proto := ToLower (TrimSpace (Proto c))\<rparr>)))\<rparr> = d"
      "Proto (c\<lparr>Proto := ToLower (TrimSpace (Proto c))\<rparr>) = Proto d"
      by (simp_all add: d_def)
    show ?thesis
      unfolding validateConfig_def Let_def p f DialNetwork_Inr DirectUpstream_def u(1)
      by (cases "EqualFold (TrimSpace (UpstreamProxy c)) ''direct''") (auto simp: p)
  qed
  show ?thesis
    unfolding v config_valid_iff_checks n
    using not_direct [of "UpstreamProxy c"] by (auto simp: u id)
qed

section \<open>Environment overrides in closed form\<close>

definition picked :: "(string \<Rightarrow> string) \<Rightarrow> (string \<Rightarrow> 'v option) \<Rightarrow> string \<Rightarrow> 'v \<Rightarrow> 'v" where
  "picked getenv parse name old = (if getenv name = '''' then old else the (parse (getenv name)))"

definition readable :: "(string \<Rightarrow> string) \<Rightarrow> (string \<Rightarrow> 'v option) \<Rightarrow> string \<Rightarrow> bool" where
  "readable getenv parse name \<longleftrightarrow> getenv name = '''' \<or> parse (getenv name) \<noteq> None"

lemma override_all_closed:
  assumes "\<forall>(n, upd) \<in> set tab. \<forall>c. upd (\<lambda>x. x) c = c"
  shows "override_all getenv parse tab c = Inr c' \<longleftrightarrow>
     (\<forall>(n, upd) \<in> set tab. readable getenv parse n) \<and>
     c' = foldl (\<lambda>c (n, upd). upd (picked getenv parse n) c) c tab"
  using assms
proof (induction tab arbitrary: c)
  case (Cons e tab)
  obtain n upd where e: "e = (n, upd)" by (cases e)
  have upd: "upd (picked getenv parse n) c = (if getenv n = '''' then c else upd (\<lambda>_. the (parse (getenv n))) c)"
    using Cons.prems e by (auto simp: picked_def [abs_def])
  show ?case
    using Cons.IH [of c] Cons.IH [of "upd (\<lambda>_. the (parse (getenv n))) c"] Cons.prems
    by (cases "getenv n = ''''"; cases "parse (getenv n)") (auto simp: e upd readable_def)
qed auto

lemma override_string_picked:
  assumes "\<forall>c. upd (\<lambda>x. x) c = c"
  shows "override_string getenv name upd c = upd (picked getenv Some name) c"
  using assms by (auto simp: override_string_def picked_def [abs_def])

lemma table_updates:
  "\<forall>(n, upd) \<in> set boolOverrides. \<forall>c. upd (\<lambda>x. x) c = c"
  "\<forall>(n, upd) \<in> set intOverrides. \<forall>c. upd (\<lambda>x. x) c = c"
  "\<forall>(n, upd) \<in> set durationOverrides. \<forall>c. upd (\<lambda>x. x) c = c"
  by (simp_all add: boolOverrides_def intOverrides_def durationOverrides_def)

definition picked_ports :: "(string \<Rightarrow> string) \<Rightarrow> int list \<Rightarrow> int list" where
  "picked_ports getenv old =
     (if getenv ''PROXY_BLOCKED_DESTINATION_PORTS'' = '''' then old
      else projr (parsePortList (getenv ''PROXY_BLOCKED_DESTINATION_PORTS'')))"

definition overridden :: "(string \<Rightarrow> duration option) \<Rightarrow> (string \<Rightarrow> string) \<Rightarrow> Config \<Rightarrow> Config" where
  "overridden parse_duration g c =
     \<lparr>ProxyAddr = picked g Some ''PROXY_ADDR'' (ProxyAddr c),
      Username = picked g Some ''PROXY_USERNAME'' (Username c),
      Password = picked g Some ''PROXY_PASSWORD'' (Password c),
      Proto = picked g Some ''PROXY_PROTO'' (Proto c),
      CertPath = picked g Some ''PROXY_CERT_PATH'' (CertPath c),
      KeyPath = picked g Some ''PROXY_KEY_PATH'' (KeyPath c),
      UpstreamProxy = picked g Some ''PROXY_UPSTREAM_PROXY'' (UpstreamProxy c),
      Network = picked g Some ''PROXY_NETWORK'' (Network c),
      LogSensitiveData = picked g ParseBool ''PROXY_LOG_SENSITIVE_DATA'' (LogSensitiveData c),
      PrivacyMode = picked g ParseBool ''PROXY_PRIVACY_MODE'' (PrivacyMode c),
      MaxConnections = picked g Atoi ''PROXY_MAX_CONNECTIONS'' (MaxConnections c),
      MaxConnectionsPerIP = picked g Atoi ''PROXY_MAX_CONNECTIONS_PER_IP'' (MaxConnectionsPerIP c),
      MaxTunnels = picked g Atoi ''PROXY_MAX_TUNNELS'' (MaxTunnels c),
      MaxTunnelsPerIP = picked g Atoi ''PROXY_MAX_TUNNELS_PER_IP'' (MaxTunnelsPerIP c),
      HTTP2MaxConcurrentStreams =
        picked g Atoi ''PROXY_HTTP2_MAX_CONCURRENT_STREAMS'' (HTTP2MaxConcurrentStreams c),
      MaxIdleConns = picked g Atoi ''PROXY_MAX_IDLE_CONNS'' (MaxIdleConns c),
      MaxIdleConnsPerHost = picked g Atoi ''PROXY_MAX_IDLE_CONNS_PER_HOST'' (MaxIdleConnsPerHost c),
      MaxHeaderBytes = picked g Atoi ''PROXY_MAX_HEADER_BYTES'' (MaxHeaderBytes c),
      AuthMaxFailures = picked g Atoi ''PROXY_AUTH_MAX_FAILURES'' (AuthMaxFailures c),
      AllowPrivateDestinations =
        picked g ParseBool ''PROXY_ALLOW_PRIVATE_DESTINATIONS'' (AllowPrivateDestinations c),
      BlockedDestinationPorts = picked_ports g (BlockedDestinationPorts c),
      DialTimeout = picked g parse_duration ''PROXY_DIAL_TIMEOUT'' (DialTimeout c),
      TLSHandshakeTimeout = picked g parse_duration ''PROXY_TLS_HANDSHAKE_TIMEOUT'' (TLSHandshakeTimeout c),
      TLSReloadInterval = picked g parse_duration ''PROXY_TLS_RELOAD_INTERVAL'' (TLSReloadInterval c),
      ResponseHeaderTimeout =
        picked g parse_duration ''PROXY_RESPONSE_HEADER_TIMEOUT'' (ResponseHeaderTimeout c),
      IdleConnTimeout = picked g parse_duration ''PROXY_IDLE_CONN_TIMEOUT'' (IdleConnTimeout c),
      ReadHeaderTimeout = picked g parse_duration ''PROXY_READ_HEADER_TIMEOUT'' (ReadHeaderTimeout c),
      IdleTimeout = picked g parse_duration ''PROXY_IDLE_TIMEOUT'' (IdleTimeout c),
      TunnelIdleTimeout = picked g parse_duration ''PROXY_TUNNEL_IDLE_TIMEOUT'' (TunnelIdleTimeout c),
      HTTP2SendPingTimeout =
        picked g parse_duration ''PROXY_HTTP2_SEND_PING_TIMEOUT'' (HTTP2SendPingTimeout c),
      HTTP2PingTimeout = picked g parse_duration ''PROXY_HTTP2_PING_TIMEOUT'' (HTTP2PingTimeout c),
      HTTP2WriteByteTimeout =
        picked g parse_duration ''PROXY_HTTP2_WRITE_BYTE_TIMEOUT'' (HTTP2WriteByteTimeout c),
      AuthFailureWindow = picked g parse_duration ''PROXY_AUTH_FAILURE_WINDOW'' (AuthFailureWindow c),
      AuthBlockDuration = picked g parse_duration ''PROXY_AUTH_BLOCK_DURATION'' (AuthBlockDuration c),
      ShutdownTimeout = picked g parse_duration ''PROXY_SHUTDOWN_TIMEOUT'' (ShutdownTimeout c)\<rparr>"

definition env_readable :: "(string \<Rightarrow> duration option) \<Rightarrow> (string \<Rightarrow> string) \<Rightarrow> bool" where
  "env_readable parse_duration g \<longleftrightarrow>
     (\<forall>(n, upd) \<in> set boolOverrides. readable g ParseBool n) \<and>
     (\<forall>(n, upd) \<in> set intOverrides. readable g Atoi n) \<and>
     (g ''PROXY_BLOCKED_DESTINATION_PORTS'' = '''' \<or>
        \<not> isl (parsePortList (g ''PROXY_BLOCKED_DESTINATION_PORTS''))) \<and>
     (\<forall>(n, upd) \<in> set durationOverrides. readable g parse_duration n)"

lemma sum_case_Inr: "(case x of Inl e \<Rightarrow> Inl e | Inr y \<Rightarrow> f y) = Inr z \<longleftrightarrow> (\<exists>y. x = Inr y \<and> f y = Inr z)"
  by (cases x) auto

lemma ports_override:
  "(if g n = '''' then Inr c
    else case parsePortList (g n) of Inl e \<Rightarrow> Inl (w e) | Inr ports \<Rightarrow> Inr (c\<lparr>BlockedDestinationPorts := ports\<rparr>)) = Inr d
   \<longleftrightarrow> (g n = '''' \<or> \<not> isl (parsePortList (g n))) \<and>
       d = c\<lparr>BlockedDestinationPorts := (if g n = '''' then BlockedDestinationPorts c else projr (parsePortList (g n)))\<rparr>"
  by (cases "parsePortList (g n)") auto

lemma applyEnvOverrides_closed:
  "applyEnvOverrides parse_duration g c = Inr c' \<longleftrightarrow>
     env_readable parse_duration g \<and> c' = overridden parse_duration g c"
proof -
  have strings: "override_string g n ProxyAddr_update d = ProxyAddr_update (picked g Some n) d"
    "override_string g n Username_update d = Username_update (picked g Some n) d"
    "override_string g n Password_update d = Password_update (picked g Some n) d"
    "override_string g n Proto_update d = Proto_update (picked g Some n) d"
    "override_string g n CertPath_update d = CertPath_update (picked g Some n) d"
    "override_string g n KeyPath_update d = KeyPath_update (picked g Some n) d"
    "override_string g n UpstreamProxy_update d = UpstreamProxy_update (picked g Some n) d"
    "override_string g n Network_update d = Network_update (picked g Some n) d"
    for n d by (simp_all add: override_string_picked)
  have tabs: "foldl f a boolOverrides = f (f (f a (''PROXY_LOG_SENSITIVE_DATA'', LogSensitiveData_update))
      (''PROXY_PRIVACY_MODE'', PrivacyMode_update)) (''PROXY_ALLOW_PRIVATE_DESTINATIONS'', AllowPrivateDestinations_update)"
    for f a by (simp add: boolOverrides_def)
  show ?thesis
    unfolding applyEnvOverrides_def Let_def sum_case_Inr ports_override override_all_closed [OF table_updates(1)]
      override_all_closed [OF table_updates(2)] override_all_closed [OF table_updates(3)]
      strings env_readable_def
    by (cases c) (auto simp: tabs intOverrides_def durationOverrides_def overridden_def picked_ports_def)
qed

section \<open>Properties\<close>

text \<open>
  C23: Validation succeeds exactly on the configurations whose normal form meets the stated
  requirements, and then leaves that normal form: limits positive and nested, durations positive,
  ports in range and distinct, a usable listen address, certificate paths for https, and an
  upstream that is empty, direct or a valid proxy URL.
\<close>

theorem validate_exact:
  "validateConfig parse c = (c', None) \<longleftrightarrow> c' = normalized c \<and> config_valid parse (normalized c)"
  by (rule validateConfig_iff)

text \<open>
  Validating a validated configuration again changes nothing and succeeds, as happens when
  \<^verbatim>\<open>Run\<close> and then \<^verbatim>\<open>NewServer\<close> validate it.
\<close>

theorem validate_idempotent:
  assumes "validateConfig parse c = (c', None)"
  shows "validateConfig parse c' = (c', None)"
proof -
  have v: "config_valid parse c'" and c': "c' = normalized c"
    using assms by (auto simp: validateConfig_iff)
  have "ToLower (TrimSpace (Proto c')) = Proto c'"
  proof -
    have "ToLower (TrimSpace ''http'') = ''http''" "ToLower (TrimSpace ''https'') = ''https''" by code_simp+
    with v show ?thesis by (auto simp: config_valid_def)
  qed
  moreover have "ToLower (TrimSpace (Network c')) = Network c'"
  proof -
    have "ToLower (TrimSpace ''auto'') = ''auto''" "ToLower (TrimSpace ''tcp4'') = ''tcp4''"
      "ToLower (TrimSpace ''tcp6'') = ''tcp6''" by code_simp+
    with v show ?thesis by (auto simp: config_valid_def)
  qed
  moreover have "(if EqualFold (TrimSpace (UpstreamProxy c')) ''direct'' then ''direct'' else UpstreamProxy c')
      = UpstreamProxy c'"
    by (simp add: c' normalized_def)
  ultimately have "normalized c' = c'" by (simp add: normalized_def)
  with v show ?thesis by (simp add: validateConfig_iff)
qed

lemma default_valid: "validateConfig parse defaultConfig = (defaultConfig, None)"
proof -
  have "normalized defaultConfig = defaultConfig"
    unfolding normalized_def defaultConfig_def by code_simp
  moreover have "SplitHostPort ''127.0.0.1:8080'' = Inr (''127.0.0.1'', ''8080'')" "Atoi ''8080'' = Some 8080"
    by code_simp+
  then have "config_valid parse defaultConfig"
    by (simp add: config_valid_def defaultConfig_def)
  ultimately show ?thesis by (simp add: validateConfig_iff)
qed

theorem validate_idempotent_witness: "validateConfig (\<lambda>_. None) defaultConfig = (defaultConfig, None)"
  by (rule validate_idempotent [where c = defaultConfig, OF default_valid])

text \<open>
  C31: The environment overrides succeed exactly when every non-empty variable with a typed value
  parses, and then each of the 35 settings is the variable's value if the variable is non-empty
  and the previous value otherwise.
\<close>

theorem env_overrides_exact:
  "applyEnvOverrides parse_duration getenv c = Inr c' \<longleftrightarrow>
     env_readable parse_duration getenv \<and> c' = overridden parse_duration getenv c"
  by (rule applyEnvOverrides_closed)

text \<open>
  C32: A configuration returned by \<^verbatim>\<open>Load\<close> is valid and in normal form: it validates to itself.
\<close>

theorem load_returns_valid:
  assumes "Load open_file decode_first decode_next parse_duration parse getenv path = Inr c"
  shows "config_valid parse c \<and>
    (\<exists>content c0. open_file path = Inr content \<and> decode_first content defaultConfig = Inr c0 \<and>
       (\<exists>e. decode_next content = Some e \<and> errors_Is e EOF) \<and>
       env_readable parse_duration getenv \<and> c = normalized (overridden parse_duration getenv c0))"
proof -
  obtain content where o: "open_file path = Inr content"
    using assms by (auto simp: Load_def split: sum.splits)
  with assms obtain c0 c1 where d: "decodeConfig decode_first decode_next content = Inr c0"
    and e: "applyEnvOverrides parse_duration getenv c0 = Inr c1" and v: "validateConfig parse c1 = (c, None)"
    by (auto simp: Load_def split: sum.splits prod.splits option.splits)
  from d have "decode_first content defaultConfig = Inr c0" "\<exists>e. decode_next content = Some e \<and> errors_Is e EOF"
    by (auto simp: decodeConfig_def split: sum.splits option.splits if_splits)
  with o e v show ?thesis
    by (auto simp: validateConfig_iff applyEnvOverrides_closed)
qed

theorem load_returns_valid_witness:
  "config_valid (\<lambda>_. None) defaultConfig \<and>
   Load (\<lambda>_. Inr '''') (\<lambda>_ c. Inr c) (\<lambda>_. Some EOF) (\<lambda>_. None) (\<lambda>_. None) (\<lambda>_. '''') ''config.yaml'' = Inr defaultConfig"
proof -
  have "env_readable (\<lambda>_. None) (\<lambda>_. '''')"
    by (auto simp: env_readable_def readable_def)
  moreover have "overridden (\<lambda>_. None) (\<lambda>_. '''') defaultConfig = defaultConfig"
    by (simp add: overridden_def picked_def picked_ports_def)
  ultimately have "Load (\<lambda>_. Inr '''') (\<lambda>_ c. Inr c) (\<lambda>_. Some EOF) (\<lambda>_. None) (\<lambda>_. None) (\<lambda>_. '''') ''config.yaml''
      = Inr defaultConfig"
    using applyEnvOverrides_closed [of "\<lambda>_. None" "\<lambda>_. ''''" defaultConfig defaultConfig]
    by (simp add: Load_def decodeConfig_def default_valid)
  with load_returns_valid [OF this] show ?thesis by blast
qed

text \<open>
  The address of an accepted upstream URL is its host name joined with its port, or with 80
  or 443 by scheme when it names none, and splits again into that host and a port number between
  1 and 65535, for a host without brackets.
\<close>

theorem upstream_address:
  assumes "ParseProxyURL parse raw = Inr u" and "CHR ''['' \<notin> set (Hostname u)" and "CHR '']'' \<notin> set (Hostname u)"
  shows "\<exists>port n. ProxyAddress u = Inr (JoinHostPort (Hostname u) port) \<and>
           port = (if Port u = '''' then if url_Scheme u = ''http'' then ''80'' else ''443'' else Port u) \<and>
           SplitHostPort (JoinHostPort (Hostname u) port) = Inr (Hostname u, port) \<and> Hostname u \<noteq> '''' \<and>
           Atoi port = Some n \<and> n \<in> {1..65535} \<and> url_Scheme u \<in> {''http'', ''https''}"
proof -
  obtain u0 a where u: "parse raw = Some u0" "u = u0\<lparr>url_Scheme := ToLower (url_Scheme u0)\<rparr>"
    and s: "url_Scheme u \<in> {''http'', ''https''}" and h: "Hostname u \<noteq> ''''" and a: "ProxyAddress u = Inr a"
    using assms(1) by (auto simp: ParseProxyURL_def Let_def split: option.splits if_splits sum.splits)
  define port where "port = (if Port u = '''' then if url_Scheme u = ''http'' then ''80'' else ''443'' else Port u)"
  have pr: "port_in_range port" and a': "a = JoinHostPort (Hostname u) port"
    using a s h by (auto simp: ProxyAddress_def Let_def port_def split: if_splits)
  have "list_all is_digit port"
    using Port_digits [of u] by (auto simp: port_def is_digit_def)
  then have "CHR '':'' \<notin> set port" "CHR ''['' \<notin> set port" "CHR '']'' \<notin> set port"
    by (auto simp: list_all_iff is_digit_def)
  then have "SplitHostPort (JoinHostPort (Hostname u) port) = Inr (Hostname u, port)"
    using assms(2,3) by (intro SplitHostPort_JoinHostPort) auto
  with pr a a' s h show ?thesis
    by (auto simp: port_in_range_iff port_def)
qed

definition demo_upstream :: url where
  "demo_upstream = empty_url\<lparr>url_Scheme := ''https'', url_Host := ''proxy.example:8443''\<rparr>"

theorem upstream_address_witness:
  "ParseProxyURL (\<lambda>_. Some demo_upstream) ''https://proxy.example:8443'' = Inr demo_upstream \<and>
   ProxyAddress demo_upstream = Inr ''proxy.example:8443''"
proof -
  have h: "Hostname demo_upstream = ''proxy.example''" "Port demo_upstream = ''8443''" by code_simp+
  have p: "ParseProxyURL (\<lambda>_. Some demo_upstream) ''https://proxy.example:8443'' = Inr demo_upstream"
    by code_simp
  from upstream_address [OF p] p show ?thesis
    by (auto simp: h JoinHostPort_def)
qed

end
