(* ===== verification/Netip.thy ===== *)
theory Netip
  imports Go_Net
begin

text \<open>
  IP addresses: the parts of \<^verbatim>\<open>net/netip\<close> the destination policy uses.  An address is a 32-bit or
  128-bit word; an IPv6 address has a zone (empty for none).  \<^verbatim>\<open>ParseAddr\<close> and \<^verbatim>\<open>Addr.String\<close>
  follow the library, with IPv6 text handled as a list of eight 16-bit groups.
\<close>

unbundle bit_operations_syntax

section \<open>Addresses and prefixes\<close>

datatype Addr = ZeroAddr | V4 "32 word" | V6 "128 word" string

definition ip4 :: "nat \<Rightarrow> nat \<Rightarrow> nat \<Rightarrow> nat \<Rightarrow> 32 word" where
  [go_simps]: "ip4 a b c d = of_nat (((a * 256 + b) * 256 + c) * 256 + d)"

definition ip6 :: "nat list \<Rightarrow> 128 word" where
  [go_simps]: "ip6 gs = of_nat (foldl (\<lambda>n g. n * 65536 + g) 0 gs)"

definition v6_groups :: "128 word \<Rightarrow> nat list" where
  [go_simps]: "v6_groups w = map (\<lambda>i. unat w div 65536 ^ (7 - i) mod 65536) [0..<8]"

definition v4_octets :: "32 word \<Rightarrow> nat list" where
  [go_simps]: "v4_octets w = map (\<lambda>i. unat w div 256 ^ (3 - i) mod 256) [0..<4]"

fun Is4In6 :: "Addr \<Rightarrow> bool" where
  "Is4In6 (V6 w z) = (drop_bit 32 w = 0xffff)"
| "Is4In6 _ = False"

fun Unmap :: "Addr \<Rightarrow> Addr" where
  "Unmap (V6 w z) = (if Is4In6 (V6 w z) then V4 (ucast w) else V6 w z)"
| "Unmap a = a"

text \<open>The predicates are applied to addresses that are unmapped already.\<close>

fun IsLoopback :: "Addr \<Rightarrow> bool" where
  "IsLoopback (V4 w) = (drop_bit 24 w = 127)"
| "IsLoopback (V6 w z) = (w = 1)"
| "IsLoopback ZeroAddr = False"

fun IsMulticast :: "Addr \<Rightarrow> bool" where
  "IsMulticast (V4 w) = (drop_bit 24 w AND 0xf0 = 0xe0)"
| "IsMulticast (V6 w z) = (drop_bit 120 w = 0xff)"
| "IsMulticast ZeroAddr = False"

fun IsLinkLocalUnicast :: "Addr \<Rightarrow> bool" where
  "IsLinkLocalUnicast (V4 w) = (drop_bit 16 w = 0xa9fe)"
| "IsLinkLocalUnicast (V6 w z) = (drop_bit 112 w AND 0xffc0 = 0xfe80)"
| "IsLinkLocalUnicast ZeroAddr = False"

fun IsLinkLocalMulticast :: "Addr \<Rightarrow> bool" where
  "IsLinkLocalMulticast (V4 w) = (drop_bit 8 w = 0xe00000)"
| "IsLinkLocalMulticast (V6 w z) = (drop_bit 112 w AND 0xff0f = 0xff02)"
| "IsLinkLocalMulticast ZeroAddr = False"

fun IsPrivate :: "Addr \<Rightarrow> bool" where
  "IsPrivate (V4 w) =
     (drop_bit 24 w = 10 \<or> (drop_bit 24 w = 172 \<and> drop_bit 16 w AND 0xf0 = 16) \<or> drop_bit 16 w = 0xc0a8)"
| "IsPrivate (V6 w z) = (drop_bit 120 w AND 0xfe = 0xfc)"
| "IsPrivate ZeroAddr = False"

text \<open>Comparison of addresses includes the zone, so \<^verbatim>\<open>::%1\<close> is not the unspecified address.\<close>

fun IsUnspecified :: "Addr \<Rightarrow> bool" where
  "IsUnspecified (V4 w) = (w = 0)"
| "IsUnspecified (V6 w z) = (w = 0 \<and> z = '''')"
| "IsUnspecified ZeroAddr = False"

fun IsGlobalUnicast :: "Addr \<Rightarrow> bool" where
  "IsGlobalUnicast ZeroAddr = False"
| "IsGlobalUnicast (V4 w) =
     (w \<noteq> 0 \<and> w \<noteq> 0xffffffff \<and> \<not> IsLoopback (V4 w) \<and> \<not> IsMulticast (V4 w) \<and> \<not> IsLinkLocalUnicast (V4 w))"
| "IsGlobalUnicast (V6 w z) =
     (\<not> (w = 0 \<and> z = '''') \<and> \<not> IsLoopback (V6 w z) \<and> \<not> IsMulticast (V6 w z) \<and> \<not> IsLinkLocalUnicast (V6 w z))"

datatype Prefix = P4 "32 word" nat | P6 "128 word" nat

text \<open>\<^verbatim>\<open>Prefix.Contains\<close> is false for an address with a zone.\<close>

fun Contains :: "Prefix \<Rightarrow> Addr \<Rightarrow> bool" where
  "Contains (P4 p n) (V4 w) = (drop_bit (32 - n) (w XOR p) = 0)"
| "Contains (P6 p n) (V6 w z) = (z = '''' \<and> drop_bit (128 - n) (w XOR p) = 0)"
| "Contains _ _ = False"

section \<open>Text\<close>

definition octet :: "string \<Rightarrow> nat option" where
  [go_simps]: "octet s =
     (if s = [] \<or> \<not> list_all is_digit s \<or> (1 < length s \<and> hd s = CHR ''0'') \<or> 255 < digits_value 0 s
      then None else Some (digits_value 0 s))"

definition parseIPv4Fields :: "string \<Rightarrow> nat list option" where
  [go_simps]: "parseIPv4Fields s =
     (case map octet (Split s CHR ''.'') of
        [Some a, Some b, Some c, Some d] \<Rightarrow> Some [a, b, c, d]
      | _ \<Rightarrow> None)"

definition parseIPv4 :: "string \<Rightarrow> Addr option" where
  [go_simps]: "parseIPv4 s =
     (case parseIPv4Fields s of Some [a, b, c, d] \<Rightarrow> Some (V4 (ip4 a b c d)) | _ \<Rightarrow> None)"

definition hex_digit :: "char \<Rightarrow> nat option" where
  [go_simps]: "hex_digit c =
     (let n = byte_of c in
      if 48 \<le> n \<and> n \<le> 57 then Some (n - 48) else if 97 \<le> n \<and> n \<le> 102 then Some (n - 87)
      else if 65 \<le> n \<and> n \<le> 70 then Some (n - 55) else None)"

fun hex_value :: "nat \<Rightarrow> string \<Rightarrow> nat" where
  "hex_value acc [] = acc"
| "hex_value acc (c # s) = hex_value (16 * acc + (case hex_digit c of Some d \<Rightarrow> d | None \<Rightarrow> 0)) s"

text \<open>
  The group loop of \<^verbatim>\<open>parseIPv6\<close>: at most \<open>k\<close> more groups, the groups so far, the position of
  the ellipsis, the rest of the text.
\<close>

fun v6_loop :: "nat \<Rightarrow> nat list \<Rightarrow> nat option \<Rightarrow> string \<Rightarrow> (nat list \<times> nat option \<times> string) option" where
  "v6_loop 0 gs ell s = Some (gs, ell, s)"
| "v6_loop (Suc k) gs ell s =
     (let ds = takeWhile (\<lambda>c. hex_digit c \<noteq> None) s; rest = drop (length ds) s in
      if 4 < length ds \<or> ds = [] then None
      else if rest \<noteq> [] \<and> hd rest = CHR ''.'' then
        (if (ell = None \<and> length gs \<noteq> 6) \<or> k = 0 then None
         else case parseIPv4Fields s of
                Some [a, b, c, d] \<Rightarrow> Some (gs @ [a * 256 + b, c * 256 + d], ell, [])
              | _ \<Rightarrow> None)
      else
        let gs = gs @ [hex_value 0 ds] in
        if rest = [] then Some (gs, ell, [])
        else if hd rest \<noteq> CHR '':'' \<or> length rest = 1 then None
        else
          let s = tl rest in
          if hd s = CHR '':'' then
            (if ell \<noteq> None then None
             else if tl s = [] then Some (gs, Some (length gs), [])
             else v6_loop k gs (Some (length gs)) (tl s))
          else v6_loop k gs ell s)"

definition v6_expand :: "nat list \<Rightarrow> nat option \<Rightarrow> nat list option" where
  [go_simps]: "v6_expand gs ell =
     (case ell of
        None \<Rightarrow> if length gs < 8 then None else Some gs
      | Some e \<Rightarrow> if length gs < 8 then Some (take e gs @ replicate (8 - length gs) 0 @ drop e gs) else None)"

definition parseIPv6 :: "string \<Rightarrow> Addr option" where
  [go_simps]: "parseIPv6 inp =
     (let (s, zone, bad) = (case Cut inp CHR ''%'' of None \<Rightarrow> (inp, '''', False) | Some (s, z) \<Rightarrow> (s, z, z = ''''))
      in if bad then None
         else
           let (s, ell) = (if HasPrefix s ''::'' then (drop 2 s, Some 0) else (s, None)) in
           if ell \<noteq> None \<and> s = [] then Some (V6 0 zone)
           else case v6_loop 8 [] ell s of
                  Some (gs, ell, []) \<Rightarrow> map_option (\<lambda>gs. V6 (ip6 gs) zone) (v6_expand gs ell)
                | _ \<Rightarrow> None)"

definition ParseAddr :: "string \<Rightarrow> Addr option" where
  [go_simps]: "ParseAddr s =
     (case dropWhile (\<lambda>c. c \<noteq> CHR ''.'' \<and> c \<noteq> CHR '':'' \<and> c \<noteq> CHR ''%'') s of
        [] \<Rightarrow> None
      | c # _ \<Rightarrow> if c = CHR ''.'' then parseIPv4 s else if c = CHR '':'' then parseIPv6 s else None)"

fun hex_digits :: "nat \<Rightarrow> string" where
  "hex_digits n =
     (let c = (\<lambda>d. if d < 10 then char_of (48 + d) else char_of (87 + d)) in
      if n < 16 then [c n] else hex_digits (n div 16) @ [c (n mod 16)])"

declare hex_digits.simps [simp del]

text \<open>The first longest run of at least two zero groups: its start and length.\<close>

definition zero_run :: "nat list \<Rightarrow> nat \<times> nat" where
  [go_simps]: "zero_run gs =
     foldl (\<lambda>(st, n) i.
        let l = length (takeWhile (\<lambda>g. g = 0) (drop i gs)) in
        if 2 \<le> l \<and> n < l then (i, l) else (st, n)) (0, 0) [0..<8]"

definition v6_text :: "nat list \<Rightarrow> string" where
  [go_simps]: "v6_text gs =
     (let (st, n) = zero_run gs in
      if n = 0 then Join (map hex_digits gs) '':''
      else Join (map hex_digits (take st gs)) '':'' @ ''::'' @ Join (map hex_digits (drop (st + n) gs)) '':'')"

definition zone_text :: "string \<Rightarrow> string" where
  [go_simps]: "zone_text z = (if z = '''' then '''' else CHR ''%'' # z)"

definition v4_text :: "32 word \<Rightarrow> string" where
  [go_simps]: "v4_text w = Join (map nat_digits (v4_octets w)) ''.''"

fun Addr_String :: "Addr \<Rightarrow> string" where
  "Addr_String ZeroAddr = ''invalid IP''"
| "Addr_String (V4 w) = v4_text w"
| "Addr_String (V6 w z) =
     (if Is4In6 (V6 w z) then ''::ffff:'' @ v4_text (ucast w) @ zone_text z
      else v6_text (v6_groups w) @ zone_text z)"

section \<open>Prefixes as intervals\<close>

text \<open>\<open>in_block n b k\<close>: \<open>n\<close> lies in the interval of the numbers that agree with \<open>b\<close> above the lowest \<open>k\<close> bits.\<close>

definition in_block :: "nat \<Rightarrow> nat \<Rightarrow> nat \<Rightarrow> bool" where
  "in_block n b k \<longleftrightarrow> b * 2 ^ k \<le> n \<and> n < (b + 1) * 2 ^ k"

lemma in_block_div: "in_block n b k \<longleftrightarrow> n div 2 ^ k = b"
proof -
  have "n div 2 ^ k = b \<longleftrightarrow> b \<le> n div 2 ^ k \<and> n div 2 ^ k < b + 1" by auto
  also have "\<dots> \<longleftrightarrow> in_block n b k"
    by (simp only: in_block_def less_eq_div_iff_mult_less_eq div_less_iff_less_mult zero_less_power zero_less_numeral)
  finally show ?thesis by simp
qed

lemma unat_drop_bit: "unat (drop_bit k w) = unat w div 2 ^ k" for w :: "'a::len word"
  using drop_bit_eq_div [of k "unat w"] by (simp only: unsigned_drop_bit_eq take_bit_nat_eq_self [OF unsigned_less])

lemma drop_bit_eq_block:
  fixes w c :: "'a::len word"
  shows "drop_bit k w = c \<longleftrightarrow> in_block (unat w) (unat c) k"
  by (metis in_block_div unat_drop_bit word_unat_eq_iff)

lemma nat_and_mask: "x AND push_bit k (mask m) = push_bit k (take_bit m (drop_bit k x))" for x :: nat
  by (auto simp: bit_eq_iff bit_simps)

lemma masked_block:
  fixes w c M V :: "'a::len word"
  assumes "unat M = push_bit k (mask m)" and "unat V = b * 2 ^ k" and "LENGTH('a) \<le> j + k + m"
  shows "drop_bit j w AND M = V \<longleftrightarrow> in_block (unat w) b (j + k)"
proof -
  let ?n = "unat w"
  have "?n < 2 ^ (j + k + m)"
    by (rule less_le_trans [OF unsigned_less]) (use assms(3) in \<open>simp add: power_increasing\<close>)
  then have small: "?n div 2 ^ (j + k) < 2 ^ m"
    by (simp add: div_less_iff_less_mult add.commute add.left_commute flip: power_add)
  have "drop_bit j w AND M = V \<longleftrightarrow> unat (drop_bit j w) AND unat M = unat V"
    by (simp add: word_unat_eq_iff unsigned_and_eq)
  also have "\<dots> \<longleftrightarrow> push_bit k (take_bit m (drop_bit k (?n div 2 ^ j))) = b * 2 ^ k"
    unfolding unat_drop_bit assms(1,2) nat_and_mask ..
  also have "\<dots> \<longleftrightarrow> ?n div 2 ^ (j + k) = b"
    using small by (simp add: push_bit_eq_mult take_bit_eq_mod drop_bit_eq_div power_add div_mult2_eq)
  finally show ?thesis by (simp add: in_block_div)
qed

lemma unat_numeral_172: "unat (172 :: 32 word) = 172"
  by simp

lemma v4_tests:
  fixes w :: "32 word"
  shows "drop_bit 24 w = 127 \<longleftrightarrow> in_block (unat w) 127 24" "drop_bit 24 w = 10 \<longleftrightarrow> in_block (unat w) 10 24"
    "drop_bit 16 w = 0xa9fe \<longleftrightarrow> in_block (unat w) 0xa9fe 16" "drop_bit 16 w = 0xc0a8 \<longleftrightarrow> in_block (unat w) 0xc0a8 16"
    "drop_bit 8 w = 0xe00000 \<longleftrightarrow> in_block (unat w) 0xe00000 8"
    "drop_bit 24 w AND 0xf0 = 0xe0 \<longleftrightarrow> in_block (unat w) 0xe 28"
    "(drop_bit 24 w = 172 \<and> drop_bit 16 w AND 0xf0 = 16) \<longleftrightarrow> in_block (unat w) 0xac1 20"
proof -
  show "drop_bit 24 w AND 0xf0 = 0xe0 \<longleftrightarrow> in_block (unat w) 0xe 28"
    using masked_block [of "0xf0 :: 32 word" 4 4 "0xe0 :: 32 word" "0xe" 24 w] by (simp add: mask_eq_exp_minus_1 push_bit_eq_mult)
  have m: "drop_bit 16 w AND 0xf0 = 16 \<longleftrightarrow> unat w div 2 ^ 20 mod 16 = 1"
  proof -
    have "drop_bit 16 w AND 0xf0 = 16 \<longleftrightarrow> unat (drop_bit 16 w) AND push_bit 4 (mask 4) = 16"
      by (simp add: word_unat_eq_iff unsigned_and_eq mask_eq_exp_minus_1 push_bit_eq_mult)
    then show ?thesis
      unfolding nat_and_mask unat_drop_bit
      by (simp add: push_bit_eq_mult take_bit_eq_mod drop_bit_eq_div flip: div_mult2_eq)
  qed
  have d: "unat w div 2 ^ 24 = unat w div 2 ^ 20 div 16" by (simp flip: div_mult2_eq)
  have n: "m div 16 = 172 \<and> m mod 16 = 1 \<longleftrightarrow> m = 0xac1" for m :: nat
    by (rule iffI, use div_mult_mod_eq [of m 16] in linarith, simp)
  show "(drop_bit 24 w = 172 \<and> drop_bit 16 w AND 0xf0 = 16) \<longleftrightarrow> in_block (unat w) 0xac1 20"
    unfolding m drop_bit_eq_block in_block_div d using n [of "unat w div 2 ^ 20"] by (simp only: unat_numeral_172)
qed (simp_all add: drop_bit_eq_block)

lemma v6_tests:
  fixes w :: "128 word"
  shows "drop_bit 120 w = 0xff \<longleftrightarrow> in_block (unat w) 0xff 120"
    "drop_bit 112 w AND 0xffc0 = 0xfe80 \<longleftrightarrow> in_block (unat w) 0x3fa 118"
    "drop_bit 120 w AND 0xfe = 0xfc \<longleftrightarrow> in_block (unat w) 0x7e 121"
proof -
  show "drop_bit 112 w AND 0xffc0 = 0xfe80 \<longleftrightarrow> in_block (unat w) 0x3fa 118"
    using masked_block [of "0xffc0 :: 128 word" 6 10 "0xfe80 :: 128 word" "0x3fa" 112 w]
    by (simp add: mask_eq_exp_minus_1 push_bit_eq_mult)
  show "drop_bit 120 w AND 0xfe = 0xfc \<longleftrightarrow> in_block (unat w) 0x7e 121"
    using masked_block [of "0xfe :: 128 word" 1 7 "0xfc :: 128 word" "0x7e" 120 w]
    by (simp add: mask_eq_exp_minus_1 push_bit_eq_mult)
qed (simp_all add: drop_bit_eq_block)

lemma link_local_multicast: "IsLinkLocalMulticast a \<Longrightarrow> IsMulticast a"
proof (induction a rule: IsMulticast.induct)
  case (1 w)
  then show ?case by (auto simp: v4_tests in_block_def)
next
  case (2 w z)
  then have h: "drop_bit 112 w AND 0xff0f = 0xff02" by simp
  have "drop_bit 120 w = drop_bit 8 (drop_bit 112 w)" by simp
  also have "drop_bit 8 (drop_bit 112 w) = drop_bit 8 (drop_bit 112 w) AND mask 8"
    by (auto simp: bit_eq_iff bit_simps dest: bit_imp_le_length)
  also have "\<dots> = drop_bit 8 (drop_bit 112 w AND 0xff0f)"
  proof -
    have "drop_bit 8 (0xff0f :: 128 word) = mask 8" by (simp add: mask_eq_exp_minus_1)
    then show ?thesis by simp
  qed
  also have "\<dots> = 0xff" unfolding h by simp
  finally show ?case by simp
qed simp

lemma word_xor_zero: "a XOR b = 0 \<longleftrightarrow> a = b" for a b :: "'a::len word"
  by (auto simp: bit_eq_iff bit_simps)

lemma reserved_tests:
  fixes w :: "32 word" and v :: "128 word"
  shows "Contains (P4 (ip4 0 0 0 0) 8) (V4 w) \<longleftrightarrow> in_block (unat w) 0 24"
    "Contains (P4 (ip4 100 64 0 0) 10) (V4 w) \<longleftrightarrow> in_block (unat w) 0x191 22"
    "Contains (P4 (ip4 192 0 0 0) 24) (V4 w) \<longleftrightarrow> in_block (unat w) 0xc00000 8"
    "Contains (P4 (ip4 192 0 2 0) 24) (V4 w) \<longleftrightarrow> in_block (unat w) 0xc00002 8"
    "Contains (P4 (ip4 198 18 0 0) 15) (V4 w) \<longleftrightarrow> in_block (unat w) 0x6309 17"
    "Contains (P4 (ip4 198 51 100 0) 24) (V4 w) \<longleftrightarrow> in_block (unat w) 0xc63364 8"
    "Contains (P4 (ip4 203 0 113 0) 24) (V4 w) \<longleftrightarrow> in_block (unat w) 0xcb0071 8"
    "Contains (P4 (ip4 240 0 0 0) 4) (V4 w) \<longleftrightarrow> in_block (unat w) 0xf 28"
    "Contains (P6 (ip6 [0x2001, 0xdb8, 0, 0, 0, 0, 0, 0]) 32) (V6 v '''') \<longleftrightarrow> in_block (unat v) 0x20010db8 96"
  by (simp_all add: word_xor_zero drop_bit_eq_block ip4_def ip6_def)

lemmas address_tests = v4_tests v6_tests reserved_tests

end
