(* ===== verification/Destination_ACL.thy ===== *)
theory Destination_ACL
  imports Config Netip
begin

text \<open>
  The destination policy, \<^verbatim>\<open>internal/proxy/acl.go\<close>: which addresses the proxy may connect to,
  and dialling only the addresses that were checked.

  Parameters: \<open>lookup network host\<close> is the answer of \<^verbatim>\<open>resolver.LookupNetIP\<close>, and the dialer is
  a function on an arbitrary world \<open>'w\<close>: \<open>dialer network address w\<close> is the outcome of
  \<^verbatim>\<open>DialContext\<close> and the world after it, \<open>ctx_done w\<close> whether \<^verbatim>\<open>ctx.Err() != nil\<close> there.
\<close>

section \<open>Data\<close>

abbreviation errDestinationDenied :: err where
  "errDestinationDenied \<equiv> DestinationDenied"

definition reservedDestinationPrefixes :: "Prefix list" where
  "reservedDestinationPrefixes =
     [P4 (ip4 0 0 0 0) 8, P4 (ip4 100 64 0 0) 10, P4 (ip4 192 0 0 0) 24, P4 (ip4 192 0 2 0) 24,
      P4 (ip4 198 18 0 0) 15, P4 (ip4 198 51 100 0) 24, P4 (ip4 203 0 113 0) 24, P4 (ip4 240 0 0 0) 4,
      P6 (ip6 [0x2001, 0xdb8, 0, 0, 0, 0, 0, 0]) 32]"

record approvedDestination =
  original :: string
  addresses :: "string list"

record destinationACL =
  allowPrivate :: bool
  blockedPorts :: "int set"

section \<open>Operations\<close>

definition normalized_host :: "string \<Rightarrow> string" where
  "normalized_host host = TrimSuffix (ToLower host) ''.''"

definition matches :: "approvedDestination \<Rightarrow> string \<Rightarrow> bool" where
  "matches d address =
     (case SplitHostPort (original d) of
        Inl _ \<Rightarrow> False
      | Inr (originalHost, originalPort) \<Rightarrow>
          (case SplitHostPort address of
             Inl _ \<Rightarrow> False
           | Inr (addressHost, addressPort) \<Rightarrow>
               if originalPort \<noteq> addressPort then False
               else normalized_host originalHost = normalized_host addressHost))"

definition newDestinationACL :: "Config \<Rightarrow> destinationACL" where
  "newDestinationACL cfg =
     \<lparr>allowPrivate = AllowPrivateDestinations cfg,
      blockedPorts = foldl (\<lambda>ports port. insert port ports) {} (BlockedDestinationPorts cfg)\<rparr>"

definition checkDestinationIP :: "Addr \<Rightarrow> err option" where
  "checkDestinationIP address =
     (let address = Unmap address in
      if \<not> IsGlobalUnicast address \<or> IsPrivate address \<or> IsLoopback address \<or> IsLinkLocalUnicast address \<or>
         IsLinkLocalMulticast address \<or> IsMulticast address \<or> IsUnspecified address
      then Some (Wrapf ''%w: non-public address'' [] errDestinationDenied)
      else if list_ex (\<lambda>prefix. Contains prefix address) reservedDestinationPrefixes
      then Some (Wrapf ''%w: reserved address'' [] errDestinationDenied)
      else None)"

definition resolverNetwork :: "string \<Rightarrow> string" where
  "resolverNetwork network =
     (if network = ''tcp4'' then ''ip4'' else if network = ''tcp6'' then ''ip6'' else ''ip'')"

text \<open>The loop over the resolved addresses, with the map \<^verbatim>\<open>seen\<close> and \<^verbatim>\<open>approved.addresses\<close>.\<close>

fun approve_loop :: "string \<Rightarrow> string \<Rightarrow> Addr list \<Rightarrow> Addr set \<Rightarrow> string list \<Rightarrow> err + string list" where
  "approve_loop host portText [] seen out = Inr out"
| "approve_loop host portText (addressIP # rest) seen out =
     (let addressIP = Unmap addressIP in
      case checkDestinationIP addressIP of
        Some e \<Rightarrow> Inl (Wrapf ''destination %q: %w'' [host] e)
      | None \<Rightarrow>
          if addressIP \<in> seen then approve_loop host portText rest seen out
          else approve_loop host portText rest (insert addressIP seen)
                 (out @ [JoinHostPort (Addr_String addressIP) portText]))"

definition approve ::
  "destinationACL \<Rightarrow> (string \<Rightarrow> string \<Rightarrow> err + Addr list) \<Rightarrow> string \<Rightarrow> string \<Rightarrow> err + approvedDestination" where
  "approve a lookup network address =
     (case SplitHostPort address of Inl _ \<Rightarrow> Inl (Errorf ''invalid destination %q'' [address]) | Inr (host, portText) \<Rightarrow>
      if host = '''' then Inl (Errorf ''invalid destination %q'' [address])
      else case Atoi portText of None \<Rightarrow> Inl (Errorf ''invalid destination port in %q'' [address]) | Some port \<Rightarrow>
      if port < 1 \<or> 65535 < port then Inl (Errorf ''invalid destination port in %q'' [address])
      else if port \<in> blockedPorts a then Inl (Wrapf ''%w: port %d is blocked'' [Itoa port] errDestinationDenied)
      else if allowPrivate a then Inr \<lparr>original = address, addresses = [address]\<rparr>
      else
        let normalizedHost = normalized_host host in
        if normalizedHost = ''localhost'' \<or> HasSuffix normalizedHost ''.localhost''
        then Inl (Wrapf ''%w: localhost is blocked'' [] errDestinationDenied)
        else case ParseAddr host of
          Some addressIP \<Rightarrow>
            (case checkDestinationIP addressIP of
               Some e \<Rightarrow> Inl e
             | None \<Rightarrow> Inr \<lparr>original = address,
                            addresses = [JoinHostPort (Addr_String (Unmap addressIP)) portText]\<rparr>)
        | None \<Rightarrow>
            (case lookup (resolverNetwork network) host of
               Inl e \<Rightarrow> Inl (Wrapf ''resolve destination %q: %w'' [host] e)
             | Inr resolved \<Rightarrow>
                 if resolved = [] then Inl (Errorf ''resolve destination %q: no addresses'' [host])
                 else case approve_loop host portText resolved {} [] of
                        Inl e \<Rightarrow> Inl e
                      | Inr out \<Rightarrow> Inr \<lparr>original = address, addresses = out\<rparr>))"

definition check :: "destinationACL \<Rightarrow> (string \<Rightarrow> string \<Rightarrow> err + Addr list) \<Rightarrow> string \<Rightarrow> err option" where
  "check a lookup address = (case approve a lookup ''tcp'' address of Inl e \<Rightarrow> Some e | Inr _ \<Rightarrow> None)"

fun dial_loop ::
  "('w \<Rightarrow> bool) \<Rightarrow> (string \<Rightarrow> string \<Rightarrow> 'w \<Rightarrow> (err + 'c) \<times> 'w) \<Rightarrow> string \<Rightarrow> string list \<Rightarrow> err list \<Rightarrow> 'w
     \<Rightarrow> (err list + 'c) \<times> 'w" where
  "dial_loop ctx_done dialer network [] dialErrors w = (Inl dialErrors, w)"
| "dial_loop ctx_done dialer network (address # rest) dialErrors w =
     (case dialer network address w of
        (Inr connection, w) \<Rightarrow> (Inr connection, w)
      | (Inl e, w) \<Rightarrow>
          let dialErrors = dialErrors @ [Wrapf ''%s: %w'' [address] e] in
          if ctx_done w then (Inl dialErrors, w) else dial_loop ctx_done dialer network rest dialErrors w)"

definition dialApproved ::
  "('w \<Rightarrow> bool) \<Rightarrow> (string \<Rightarrow> string \<Rightarrow> 'w \<Rightarrow> (err + 'c) \<times> 'w) \<Rightarrow> string \<Rightarrow> approvedDestination \<Rightarrow> 'w
     \<Rightarrow> (err + 'c) \<times> 'w" where
  "dialApproved ctx_done dialer network destination w =
     (case dial_loop ctx_done dialer network (addresses destination) [] w of
        (Inr connection, w) \<Rightarrow> (Inr connection, w)
      | (Inl dialErrors, w) \<Rightarrow>
          (Inl (Wrapf ''dial destination %q: %w'' [original destination] (Joined dialErrors)), w))"

definition dial ::
  "destinationACL \<Rightarrow> (string \<Rightarrow> string \<Rightarrow> err + Addr list) \<Rightarrow> ('w \<Rightarrow> bool) \<Rightarrow>
   (string \<Rightarrow> string \<Rightarrow> 'w \<Rightarrow> (err + 'c) \<times> 'w) \<Rightarrow> string \<Rightarrow> string \<Rightarrow> 'w \<Rightarrow> (err + 'c) \<times> 'w" where
  "dial a lookup ctx_done dialer network address w =
     (case approve a lookup network address of
        Inl e \<Rightarrow> (Inl e, w)
      | Inr approved \<Rightarrow> dialApproved ctx_done dialer network approved w)"

definition requestDestination :: "url \<Rightarrow> err + string" where
  "requestDestination requestURL =
     (let host = Hostname requestURL in
      if host = '''' then Inl (New ''request destination host is empty'')
      else
        let port = Port requestURL; scheme = ToLower (url_Scheme requestURL) in
        if port = '''' then
          (if scheme = ''http'' then Inr (JoinHostPort host ''80'')
           else if scheme = ''https'' then Inr (JoinHostPort host ''443'')
           else Inl (Errorf ''unsupported request scheme %q'' [url_Scheme requestURL]))
        else Inr (JoinHostPort host port))"

section \<open>Which addresses are accepted\<close>

text \<open>
  The special-purpose blocks, as a table of CIDR prefixes read as intervals of numbers: the
  specification of \<open>checkDestinationIP\<close>, which works with library predicates and bit masks.
\<close>

definition special_v4 :: "((nat \<times> nat \<times> nat \<times> nat) \<times> nat) list" where
  "special_v4 =
     [((0, 0, 0, 0), 8), ((10, 0, 0, 0), 8), ((100, 64, 0, 0), 10), ((127, 0, 0, 0), 8),
      ((169, 254, 0, 0), 16), ((172, 16, 0, 0), 12), ((192, 0, 0, 0), 24), ((192, 0, 2, 0), 24),
      ((192, 168, 0, 0), 16), ((198, 18, 0, 0), 15), ((198, 51, 100, 0), 24), ((203, 0, 113, 0), 24),
      ((224, 0, 0, 0), 4), ((240, 0, 0, 0), 4)]"

definition special_v6 :: "(nat list \<times> nat) list" where
  "special_v6 =
     [([0, 0, 0, 0, 0, 0, 0, 0], 128), ([0, 0, 0, 0, 0, 0, 0, 1], 128), ([0xfc00, 0, 0, 0, 0, 0, 0, 0], 7),
      ([0xfe80, 0, 0, 0, 0, 0, 0, 0], 10), ([0xff00, 0, 0, 0, 0, 0, 0, 0], 8),
      ([0x2001, 0xdb8, 0, 0, 0, 0, 0, 0], 32)]"

definition in_cidr :: "nat \<Rightarrow> nat \<Rightarrow> nat \<Rightarrow> nat \<Rightarrow> bool" where
  "in_cidr bits base len n \<longleftrightarrow> base \<le> n \<and> n < base + 2 ^ (bits - len)"

definition special4 :: "nat \<Rightarrow> bool" where
  "special4 n \<longleftrightarrow> list_ex (\<lambda>((a, b, c, d), len). in_cidr 32 (((a * 256 + b) * 256 + c) * 256 + d) len n) special_v4"

definition special6 :: "nat \<Rightarrow> bool" where
  "special6 n \<longleftrightarrow> list_ex (\<lambda>(gs, len). in_cidr 128 (foldl (\<lambda>n g. n * 65536 + g) 0 gs) len n) special_v6"

definition public_addr :: "Addr \<Rightarrow> bool" where
  "public_addr a = (case a of ZeroAddr \<Rightarrow> False | V4 w \<Rightarrow> \<not> special4 (unat w) | V6 w z \<Rightarrow> \<not> special6 (unat w))"

definition zoned :: "Addr \<Rightarrow> bool" where
  "zoned a = (case a of V6 w z \<Rightarrow> z \<noteq> '''' | _ \<Rightarrow> False)"

definition zone_hidden :: "Addr \<Rightarrow> bool" where
  "zone_hidden a = (case a of V6 w z \<Rightarrow> z \<noteq> '''' \<and> (w = 0 \<or> in_cidr 128 0x20010db8000000000000000000000000 32 (unat w))
     | _ \<Rightarrow> False)"

lemma special4_blocks:
  "special4 n \<longleftrightarrow>
     in_block n 0 24 \<or> in_block n 10 24 \<or> in_block n 0x191 22 \<or> in_block n 127 24 \<or> in_block n 0xa9fe 16 \<or>
     in_block n 0xac1 20 \<or> in_block n 0xc00000 8 \<or> in_block n 0xc00002 8 \<or> in_block n 0xc0a8 16 \<or>
     in_block n 0x6309 17 \<or> in_block n 0xc63364 8 \<or> in_block n 0xcb0071 8 \<or> in_block n 0xe 28 \<or> in_block n 0xf 28"
  by (simp add: special4_def special_v4_def in_cidr_def in_block_def)

lemma special6_blocks:
  "special6 n \<longleftrightarrow>
     n = 0 \<or> n = 1 \<or> in_block n 0x7e 121 \<or> in_block n 0x3fa 118 \<or> in_block n 0xff 120 \<or> in_block n 0x20010db8 96"
  by (auto simp: special6_def special_v6_def in_cidr_def in_block_def)

lemma reserved_v4: "list_ex (\<lambda>p. Contains p (V4 w)) reservedDestinationPrefixes \<longleftrightarrow>
    in_block (unat w) 0 24 \<or> in_block (unat w) 0x191 22 \<or> in_block (unat w) 0xc00000 8 \<or> in_block (unat w) 0xc00002 8 \<or>
    in_block (unat w) 0x6309 17 \<or> in_block (unat w) 0xc63364 8 \<or> in_block (unat w) 0xcb0071 8 \<or> in_block (unat w) 0xf 28"
  unfolding reservedDestinationPrefixes_def list_ex_Nil_iff list_ex_Cons_iff address_tests by simp

lemma reserved_v6: "list_ex (\<lambda>p. Contains p (V6 w z)) reservedDestinationPrefixes \<longleftrightarrow>
    z = '''' \<and> in_block (unat w) 0x20010db8 96"
proof (cases "z = ''''")
  case True
  have "list_ex (\<lambda>p. Contains p (V6 w '''')) reservedDestinationPrefixes \<longleftrightarrow>
      Contains (P6 (ip6 [0x2001, 0xdb8, 0, 0, 0, 0, 0, 0]) 32) (V6 w '''')"
    by (simp add: reservedDestinationPrefixes_def)
  with True show ?thesis by (simp only: address_tests) simp
qed (simp add: reservedDestinationPrefixes_def)

lemma check_V4: "checkDestinationIP (V4 w) = None \<longleftrightarrow> public_addr (V4 w)"
proof -
  have llm: "IsLinkLocalMulticast (V4 w) \<Longrightarrow> IsMulticast (V4 w)" by (rule link_local_multicast)
  have e: "w = 0 \<Longrightarrow> in_block (unat w) 0 24" "w = 0xffffffff \<Longrightarrow> in_block (unat w) 0xf 28"
    by (simp_all add: in_block_def)
  show ?thesis
    using llm e
    unfolding checkDestinationIP_def Let_def Unmap.simps reserved_v4 public_addr_def special4_blocks
      IsGlobalUnicast.simps IsPrivate.simps IsLoopback.simps IsLinkLocalUnicast.simps IsMulticast.simps
      IsUnspecified.simps address_tests Addr.case
    by auto
qed

lemma check_V6:
  assumes "\<not> Is4In6 (V6 w z)"
  shows "checkDestinationIP (V6 w z) = None \<longleftrightarrow> public_addr (V6 w z) \<or> zone_hidden (V6 w z)"
proof -
  have llm: "IsLinkLocalMulticast (V6 w z) \<Longrightarrow> IsMulticast (V6 w z)" by (rule link_local_multicast)
  have um: "Unmap (V6 w z) = V6 w z" using assms by simp
  have z: "unat w = 0 \<longleftrightarrow> w = 0" "unat w = 1 \<longleftrightarrow> w = 1" by (simp_all add: word_unat_eq_iff)
  have h: "in_cidr 128 0x20010db8000000000000000000000000 32 n \<longleftrightarrow> in_block n 0x20010db8 96" for n
    by (simp add: in_cidr_def in_block_def)
  have dis: "in_block (unat w) 0x20010db8 96 \<Longrightarrow>
      w \<noteq> 1 \<and> w \<noteq> 0 \<and> \<not> in_block (unat w) 0x7e 121 \<and> \<not> in_block (unat w) 0x3fa 118 \<and> \<not> in_block (unat w) 0xff 120"
    by (auto simp: in_block_def)
  have zero: "\<not> in_block 0 0x7e 121 \<and> \<not> in_block 0 0x3fa 118 \<and> \<not> in_block 0 0xff 120" by (simp add: in_block_def)
  show ?thesis
    using llm dis zero
    unfolding checkDestinationIP_def Let_def um reserved_v6 public_addr_def special6_blocks zone_hidden_def
      IsGlobalUnicast.simps IsPrivate.simps IsLoopback.simps IsLinkLocalUnicast.simps IsMulticast.simps
      IsUnspecified.simps address_tests Addr.case z h
    by auto
qed

lemma Unmap_idem [simp]: "Unmap (Unmap a) = Unmap a"
  by (cases a) auto

lemma checkDestinationIP_iff:
  "checkDestinationIP a = None \<longleftrightarrow> public_addr (Unmap a) \<or> zone_hidden (Unmap a)"
proof -
  have "checkDestinationIP a = None \<longleftrightarrow> checkDestinationIP (Unmap a) = None" by (simp add: checkDestinationIP_def)
  also have "\<dots> \<longleftrightarrow> public_addr (Unmap a) \<or> zone_hidden (Unmap a)"
  proof (cases "Unmap a")
    case (V6 w z)
    then have "\<not> Is4In6 (V6 w z)" by (cases a) (auto split: if_splits)
    with V6 show ?thesis by (simp add: check_V6)
  qed (simp_all add: check_V4 zone_hidden_def, simp add: checkDestinationIP_def public_addr_def)
  finally show ?thesis .
qed

lemma checkDestinationIP_denied: "checkDestinationIP a = Some e \<Longrightarrow> errors_Is e errDestinationDenied"
  by (auto simp: checkDestinationIP_def Let_def split: if_splits)

section \<open>Approval in closed form\<close>

fun first_occurrences :: "'a set \<Rightarrow> 'a list \<Rightarrow> 'a list" where
  "first_occurrences seen [] = []"
| "first_occurrences seen (x # xs) =
     (if x \<in> seen then first_occurrences seen xs else x # first_occurrences (insert x seen) xs)"

lemma set_first_occurrences [simp]: "set (first_occurrences seen xs) = set xs - seen"
  by (induction seen xs rule: first_occurrences.induct) auto

lemma distinct_first_occurrences [simp]: "distinct (first_occurrences seen xs)"
  by (induction seen xs rule: first_occurrences.induct) auto

lemma approve_loop_Inr:
  "approve_loop host portText ips seen out = Inr out' \<longleftrightarrow>
     (\<forall>ip \<in> set ips. checkDestinationIP ip = None) \<and>
     out' = out @ map (\<lambda>ip. JoinHostPort (Addr_String ip) portText) (first_occurrences seen (map Unmap ips))"
proof (induction host portText ips seen out rule: approve_loop.induct)
  case (2 host portText ip rest seen out)
  have "checkDestinationIP (Unmap ip) = checkDestinationIP ip" by (simp add: checkDestinationIP_def)
  then show ?case using 2 by (auto simp: Let_def split: option.splits)
qed auto

lemma approve_loop_denied:
  assumes "ip \<in> set ips" and "checkDestinationIP ip \<noteq> None"
  shows "\<exists>e. approve_loop host portText ips seen out = Inl e \<and> errors_Is e errDestinationDenied"
  using assms
proof (induction host portText ips seen out rule: approve_loop.induct)
  case (2 host portText ip' rest seen out)
  have "checkDestinationIP (Unmap x) = checkDestinationIP x" for x by (simp add: checkDestinationIP_def)
  then show ?case
    using 2 checkDestinationIP_denied [of ip'] by (auto simp: Let_def split: option.splits)
qed auto

definition localhost_name :: "string \<Rightarrow> bool" where
  "localhost_name host \<longleftrightarrow> normalized_host host = ''localhost'' \<or> HasSuffix (normalized_host host) ''.localhost''"

definition destination_parts :: "string \<Rightarrow> string \<Rightarrow> string \<Rightarrow> int \<Rightarrow> bool" where
  "destination_parts address host portText port \<longleftrightarrow>
     SplitHostPort address = Inr (host, portText) \<and> host \<noteq> '''' \<and> Atoi portText = Some port \<and> 1 \<le> port \<and> port \<le> 65535"

text \<open>The addresses a host stands for: itself when it is a literal, else the resolver's answer.\<close>

definition candidates :: "(string \<Rightarrow> string \<Rightarrow> err + Addr list) \<Rightarrow> string \<Rightarrow> string \<Rightarrow> err + Addr list" where
  "candidates lookup network host =
     (case ParseAddr host of Some ip \<Rightarrow> Inr [ip] | None \<Rightarrow> lookup (resolverNetwork network) host)"

definition approved_addresses :: "Addr list \<Rightarrow> string \<Rightarrow> string list" where
  "approved_addresses ips portText =
     map (\<lambda>ip. JoinHostPort (Addr_String ip) portText) (first_occurrences {} (map Unmap ips))"

lemma approve_parts:
  "approve a lookup network address = Inr d \<Longrightarrow>
     \<exists>host portText port. destination_parts address host portText port \<and> port \<notin> blockedPorts a"
  by (fastforce simp: approve_def destination_parts_def split: sum.splits prod.splits if_splits option.splits)

lemma approve_public_iff:
  assumes "destination_parts address host portText port" and "port \<notin> blockedPorts a" and "\<not> allowPrivate a"
  shows "approve a lookup network address = Inr d \<longleftrightarrow>
     \<not> localhost_name host \<and>
     (\<exists>ips. candidates lookup network host = Inr ips \<and> ips \<noteq> [] \<and> (\<forall>ip \<in> set ips. checkDestinationIP ip = None) \<and>
        d = \<lparr>original = address, addresses = approved_addresses ips portText\<rparr>)"
proof (cases "ParseAddr host")
  case None
  then show ?thesis
    using assms
    by (cases "lookup (resolverNetwork network) host")
       (auto simp: approve_def destination_parts_def candidates_def approved_addresses_def sum_case_Inr
        approve_loop_Inr localhost_name_def Let_def)
next
  case (Some ip)
  then show ?thesis
    using assms
    by (auto simp: approve_def destination_parts_def candidates_def approved_addresses_def
        localhost_name_def Let_def split: sum.splits option.splits)
qed

lemma approve_private:
  assumes "destination_parts address host portText port" and "port \<notin> blockedPorts a" and "allowPrivate a"
  shows "approve a lookup network address = Inr \<lparr>original = address, addresses = [address]\<rparr>"
  using assms by (auto simp: approve_def destination_parts_def)

lemma approve_blocked:
  assumes "destination_parts address host portText port" and "port \<in> blockedPorts a"
  shows "approve a lookup network address = Inl (Wrapf ''%w: port %d is blocked'' [Itoa port] errDestinationDenied)"
  using assms by (auto simp: approve_def destination_parts_def)

lemma blockedPorts_new [simp]: "blockedPorts (newDestinationACL cfg) = set (BlockedDestinationPorts cfg)"
proof -
  have "foldl (\<lambda>ports port. insert port ports) A ps = A \<union> set ps" for A and ps :: "int list"
    by (induction ps arbitrary: A) auto
  then show ?thesis by (simp add: newDestinationACL_def)
qed

lemma allowPrivate_new [simp]: "allowPrivate (newDestinationACL cfg) = AllowPrivateDestinations cfg"
  by (simp add: newDestinationACL_def)

section \<open>Dialling\<close>

text \<open>A dialer that also records the network and address of every attempt.\<close>

definition recording ::
  "(string \<Rightarrow> string \<Rightarrow> 'w \<Rightarrow> (err + 'c) \<times> 'w) \<Rightarrow>
   string \<Rightarrow> string \<Rightarrow> 'w \<times> (string \<times> string) list \<Rightarrow> (err + 'c) \<times> ('w \<times> (string \<times> string) list)" where
  "recording dialer network address = (\<lambda>(w, log).
     let (r, w) = dialer network address w in (r, (w, log @ [(network, address)])))"

lemma recording_apply [simp]:
  "recording dialer network address (w, log) =
     (case dialer network address w of (r, w) \<Rightarrow> (r, (w, log @ [(network, address)])))"
  by (simp add: recording_def)

lemma dial_loop_recording:
  assumes "dial_loop (ctx_done \<circ> fst) (recording dialer) network as errs (w, log) = (r, (w', log'))"
  shows "\<exists>k \<le> length as. (as \<noteq> [] \<longrightarrow> 0 < k) \<and> log' = log @ map (Pair network) (take k as) \<and>
     dial_loop ctx_done dialer network as errs w = (r, w') \<and>
     (case r of Inr c \<Rightarrow> 0 < k \<and> (\<exists>v. dialer network (as ! (k - 1)) v = (Inr c, w'))
              | Inl es \<Rightarrow> length es = length errs + k \<and> (k < length as \<longrightarrow> ctx_done w'))"
  using assms
proof (induction as arbitrary: errs w log)
  case (Cons x as)
  obtain q v where q: "dialer network x w = (q, v)" by fastforce
  show ?case
  proof (cases q)
    case (Inr c)
    then show ?thesis
      using Cons.prems q by (intro exI [of _ 1]) auto
  next
    case (Inl e)
    let ?errs = "errs @ [Wrapf ''%s: %w'' [x] e]"
    show ?thesis
    proof (cases "ctx_done v")
      case True
      then show ?thesis
        using Cons.prems q Inl by (intro exI [of _ 1]) auto
    next
      case False
      have "dial_loop (ctx_done \<circ> fst) (recording dialer) network as ?errs (v, log @ [(network, x)]) = (r, (w', log'))"
        using Cons.prems q Inl False by (simp add: comp_def)
      from Cons.IH [OF this] obtain k where k: "k \<le> length as"
        "log' = (log @ [(network, x)]) @ map (Pair network) (take k as)"
        "dial_loop ctx_done dialer network as ?errs v = (r, w')"
        "case r of Inr c \<Rightarrow> 0 < k \<and> (\<exists>v. dialer network (as ! (k - 1)) v = (Inr c, w'))
          | Inl es \<Rightarrow> length es = length ?errs + k \<and> (k < length as \<longrightarrow> ctx_done w')"
        by blast
      then show ?thesis
        using q Inl False by (intro exI [of _ "Suc k"]) (auto simp: nth_Cons split: sum.splits nat.splits)
    qed
  qed
qed auto

section \<open>The contract of the policy\<close>

text \<open>
  What the rest of the proxy relies on: an approved destination carries at least one address, all
  of them permitted, so whoever dials only those addresses never contacts anything else.
\<close>

locale destination_policy =
  fixes approve :: "string \<Rightarrow> string \<Rightarrow> err + approvedDestination"
    and permitted :: "string \<Rightarrow> bool"
  assumes approved_permitted: "approve network address = Inr d \<Longrightarrow> x \<in> set (addresses d) \<Longrightarrow> permitted x"
    and approved_nonempty: "approve network address = Inr d \<Longrightarrow> addresses d \<noteq> []"
    and approved_original: "approve network address = Inr d \<Longrightarrow> original d = address"
begin

lemma dial_permitted:
  assumes "approve network address = Inr d"
    and "dialApproved (ctx_done \<circ> fst) (recording dialer) network' d (w, []) = (r, (w', log))"
  shows "log \<noteq> [] \<and> (\<forall>(n, x) \<in> set log. n = network' \<and> permitted x)"
proof -
  obtain q where "dial_loop (ctx_done \<circ> fst) (recording dialer) network' (addresses d) [] (w, []) = (q, (w', log))"
    using assms(2) by (auto simp: dialApproved_def split: prod.splits sum.splits)
  from dial_loop_recording [OF this] approved_nonempty [OF assms(1)]
  obtain k where k: "log = map (Pair network') (take k (addresses d))" "0 < k" by auto
  then have "log \<noteq> []" using approved_nonempty [OF assms(1)] by simp
  with k(1) approved_permitted [OF assms(1)] show ?thesis
    by (auto dest: in_set_takeD)
qed

end

text \<open>
  An address string the policy of \<open>a\<close> permits: with private destinations allowed, any with an
  unblocked port; otherwise the text of an unmapped IP address that passes \<open>checkDestinationIP\<close>, that
  is, one outside every block of the tables, or hidden by its zone.  The text of an IPv4-mapped
  address is never permitted (\<open>mapped_text_not_permitted\<close>).
\<close>

definition permitted :: "destinationACL \<Rightarrow> string \<Rightarrow> bool" where
  "permitted a x \<longleftrightarrow>
     (\<exists>portText port. Atoi portText = Some port \<and> port \<in> {1..65535} \<and> port \<notin> blockedPorts a \<and>
        (if allowPrivate a then \<exists>host. host \<noteq> '''' \<and> SplitHostPort x = Inr (host, portText)
         else \<exists>ip. x = JoinHostPort (Addr_String ip) portText \<and> Unmap ip = ip \<and>
                   checkDestinationIP ip = None \<and> (public_addr ip \<or> zone_hidden ip)))"

lemma Atoi_chars: "Atoi s = Some n \<Longrightarrow> c \<in> set s \<Longrightarrow> c \<in> set ''+-'' \<or> is_digit c"
  by (cases s) (auto simp: Atoi_def Let_def list_all_iff split: if_splits)

lemma hex_digits_chars: "c \<in> set (hex_digits n) \<Longrightarrow> c \<notin> set ''.[]%''"
proof (induction n rule: hex_digits.induct)
  case (1 n)
  have d: "char_of (48 + d) \<notin> set ''.[]%''" if "d < (10 :: nat)" for d
    using that by (auto dest!: arg_cong [of _ _ "of_char :: char \<Rightarrow> nat"])
  have h: "char_of (87 + d) \<notin> set ''.[]%''" if "10 \<le> d" "d < (16 :: nat)" for d
    using that by (auto dest!: arg_cong [of _ _ "of_char :: char \<Rightarrow> nat"])
  have "c \<in> set (if n < 16 then [if n < 10 then char_of (48 + n) else char_of (87 + n)]
      else hex_digits (n div 16) @ [if n mod 16 < 10 then char_of (48 + n mod 16) else char_of (87 + n mod 16)])"
    using 1(2) hex_digits.simps [of n] by (simp add: Let_def)
  with 1(1) d [of n] h [of n] d [of "n mod 16"] h [of "n mod 16"] show ?case
    by (fastforce split: if_splits)
qed

lemma v6_text_chars: "c \<in> set (v6_text gs) \<Longrightarrow> c \<notin> set ''.[]%''"
proof -
  have j: "c \<in> set (Join (map hex_digits gs) '':'') \<Longrightarrow> c \<notin> set ''.[]%''" for c gs
    by (induction gs rule: induct_list012) (auto dest: hex_digits_chars)
  show "c \<in> set (v6_text gs) \<Longrightarrow> c \<notin> set ''.[]%''"
    by (auto simp: v6_text_def Let_def split: prod.splits if_splits dest: j)
qed

lemma v4_text_chars: "c \<in> set (v4_text w) \<Longrightarrow> c = CHR ''.'' \<or> is_digit c"
proof -
  have "c \<in> set (Join (map nat_digits ns) ''.'') \<Longrightarrow> c = CHR ''.'' \<or> is_digit c" for ns
    using nat_digits_are_digits by (induction ns rule: induct_list012) (auto simp: list_all_iff)
  then show "c \<in> set (v4_text w) \<Longrightarrow> c = CHR ''.'' \<or> is_digit c" by (simp add: v4_text_def)
qed

lemma mapped_text_not_permitted:
  assumes "\<not> allowPrivate a" and "CHR ''.'' \<in> set host" and "CHR '':'' \<in> set host"
    and "set ''[]%'' \<inter> set host = {}" and "list_all is_digit port"
  shows "\<not> permitted a (JoinHostPort host port)"
proof
  assume "permitted a (JoinHostPort host port)"
  then obtain ip pt n where ip: "JoinHostPort host port = JoinHostPort (Addr_String ip) pt" "Unmap ip = ip"
    and pt: "Atoi pt = Some n"
    using assms(1) by (auto simp: permitted_def)
  have port: "CHR '':'' \<notin> set port" "CHR ''['' \<notin> set port" "CHR '']'' \<notin> set port" "CHR ''%'' \<notin> set port"
    using assms(5) by (auto simp: list_all_iff is_digit_def)
  have pt': "CHR '':'' \<notin> set pt" "CHR ''['' \<notin> set pt" "CHR '']'' \<notin> set pt"
    by (auto dest!: Atoi_chars [OF pt] simp: is_digit_def)
  have "CHR ''%'' \<notin> set (JoinHostPort host port)"
    using assms(4) port by (auto simp: JoinHostPort_def)
  then have nozone: "CHR ''%'' \<notin> set (Addr_String ip)"
    unfolding ip(1) by (auto simp: JoinHostPort_def split: if_splits)
  have chars: "CHR ''['' \<notin> set (Addr_String ip) \<and> CHR '']'' \<notin> set (Addr_String ip) \<and>
      \<not> (CHR ''.'' \<in> set (Addr_String ip) \<and> CHR '':'' \<in> set (Addr_String ip))"
  proof (cases ip)
    case (V4 w)
    then show ?thesis by (auto dest!: v4_text_chars simp: is_digit_def)
  next
    case (V6 w z)
    with ip(2) nozone have "Addr_String ip = v6_text (v6_groups w)"
      by (auto simp: zone_text_def split: if_splits)
    then show ?thesis by (auto dest!: v6_text_chars)
  qed simp
  have "SplitHostPort (JoinHostPort host port) = Inr (host, port)"
    by (rule SplitHostPort_JoinHostPort) (use port assms(4) in auto)
  moreover have "SplitHostPort (JoinHostPort (Addr_String ip) pt) = Inr (Addr_String ip, pt)"
    by (rule SplitHostPort_JoinHostPort) (simp_all add: pt' chars)
  ultimately have "host = Addr_String ip" unfolding ip(1) by (metis sum.inject(2) prod.inject)
  with chars assms(2,3) show False by simp
qed

lemma approve_contract:
  assumes "approve a lookup network address = Inr d"
  shows "original d = address \<and> addresses d \<noteq> [] \<and> (\<forall>x \<in> set (addresses d). permitted a x)"
proof -
  obtain host portText port where p: "destination_parts address host portText port" "port \<notin> blockedPorts a"
    using approve_parts [OF assms] by blast
  show ?thesis
  proof (cases "allowPrivate a")
    case True
    with approve_private [OF p] assms p show ?thesis
      by (auto simp: permitted_def destination_parts_def)
  next
    case False
    from approve_public_iff [OF p False, of lookup network d] assms obtain ips where ips: "ips \<noteq> []"
      "\<forall>ip \<in> set ips. checkDestinationIP ip = None"
      "d = \<lparr>original = address, addresses = approved_addresses ips portText\<rparr>" by blast
    moreover have "first_occurrences {} (map Unmap ips) \<noteq> []"
      using ips(1) by (cases ips) auto
    ultimately show ?thesis
      using p False by (fastforce simp: approved_addresses_def permitted_def destination_parts_def checkDestinationIP_iff)
  qed
qed

interpretation pol: destination_policy "approve a lookup" "permitted a" for a lookup
  by unfold_locales (auto dest: approve_contract)

subsection \<open>A concrete instance\<close>

definition demo_acl :: destinationACL where
  "demo_acl = newDestinationACL defaultConfig"

definition demo_lookup :: "string \<Rightarrow> string \<Rightarrow> err + Addr list" where
  "demo_lookup network host =
     (if host = ''example.com'' then Inr [V4 (ip4 93 184 216 34), V6 (ip6 [0, 0, 0, 0, 0, 0xffff, 0x5db8, 0xd822]) '''']
      else if host = ''rebind.example'' then Inr [V4 (ip4 93 184 216 34), V4 (ip4 127 0 0 1)]
      else Inl (New ''no such host''))"

definition demo_dialer :: "string \<Rightarrow> string \<Rightarrow> nat \<Rightarrow> (err + string) \<times> nat" where
  "demo_dialer network address n = (if 0 < n then (Inr address, n + 1) else (Inl (New ''refused''), n + 1))"

lemma demo_acl_fields: "blockedPorts demo_acl = set (BlockedDestinationPorts defaultConfig)" "\<not> allowPrivate demo_acl"
  by (simp_all add: demo_acl_def defaultConfig_def)

lemma mapped_loopback_not_permitted: "\<not> permitted demo_acl ''[::ffff:127.0.0.1]:80''"
  using mapped_text_not_permitted [of demo_acl "''::ffff:127.0.0.1''" "''80''"] demo_acl_fields
  by (simp add: JoinHostPort_def is_digit_def)

lemma demo_port: "443 \<notin> blockedPorts demo_acl" "22 \<in> blockedPorts demo_acl" "80 \<notin> blockedPorts demo_acl"
  by (simp_all add: demo_acl_fields defaultConfig_def)

lemma demo_parts: "destination_parts ''example.com:443'' ''example.com'' ''443'' 443"
  "destination_parts ''rebind.example:443'' ''rebind.example'' ''443'' 443"
  "destination_parts ''example.com:0022'' ''example.com'' ''0022'' 22"
  by code_simp+

lemma demo_not_literal: "ParseAddr ''example.com'' = None" "ParseAddr ''rebind.example'' = None"
  "\<not> localhost_name ''example.com''"
  by code_simp+

lemma demo_candidates:
  "candidates demo_lookup ''tcp'' ''example.com'' =
     Inr [V4 (ip4 93 184 216 34), V6 (ip6 [0, 0, 0, 0, 0, 0xffff, 0x5db8, 0xd822]) '''']"
  "candidates demo_lookup ''tcp'' ''rebind.example'' = Inr [V4 (ip4 93 184 216 34), V4 (ip4 127 0 0 1)]"
  by (simp_all add: candidates_def demo_not_literal demo_lookup_def)

lemma demo_unmap: "Unmap (V6 (ip6 [0, 0, 0, 0, 0, 0xffff, 0x5db8, 0xd822]) z) = V4 (ip4 93 184 216 34)"
  by (simp add: ip6_def ip4_def)

lemma demo_v4_check: "checkDestinationIP (V4 (ip4 93 184 216 34)) = None" "checkDestinationIP (V4 (ip4 127 0 0 1)) \<noteq> None"
  by (simp_all add: checkDestinationIP_def reservedDestinationPrefixes_def ip4_def)

lemma demo_mapped_check: "checkDestinationIP (V6 (ip6 [0, 0, 0, 0, 0, 0xffff, 0x5db8, 0xd822]) z) = None"
  using demo_v4_check(1) unfolding checkDestinationIP_def demo_unmap by simp

lemma demo_v4_text: "JoinHostPort (Addr_String (V4 (ip4 93 184 216 34))) ''443'' = ''93.184.216.34:443''"
proof -
  have v: "v4_octets (ip4 93 184 216 34) = [93, 184, 216, 34]" by (simp add: v4_octets_def ip4_def upt_rec)
  show ?thesis unfolding Addr_String.simps v4_text_def v by code_simp
qed

lemma demo_approved:
  "approved_addresses [V4 (ip4 93 184 216 34), V6 (ip6 [0, 0, 0, 0, 0, 0xffff, 0x5db8, 0xd822]) ''''] ''443''
     = [''93.184.216.34:443'']"
  by (simp del: Addr_String.simps Unmap.simps(1) add: approved_addresses_def demo_unmap demo_v4_text)

lemma demo_approve:
  "approve demo_acl demo_lookup ''tcp'' ''example.com:443'' =
     Inr \<lparr>original = ''example.com:443'', addresses = [''93.184.216.34:443'']\<rparr>"
  unfolding approve_public_iff [OF demo_parts(1) demo_port(1) demo_acl_fields(2)]
  by (simp add: demo_not_literal demo_candidates demo_v4_check demo_mapped_check demo_approved)

lemma approve_literal:
  assumes "destination_parts address host portText port" and "port \<notin> blockedPorts a" and "\<not> allowPrivate a"
    and "\<not> localhost_name host" and "ParseAddr host = Some ip"
  shows "approve a lookup network address =
    (case checkDestinationIP ip of Some e \<Rightarrow> Inl e
     | None \<Rightarrow> Inr \<lparr>original = address, addresses = [JoinHostPort (Addr_String (Unmap ip)) portText]\<rparr>)"
  using assms by (auto simp: approve_def destination_parts_def localhost_name_def Let_def split: option.splits)

lemma zero_literals: "ParseAddr ''::%1'' = Some (V6 0 ''1'')" "ParseAddr ''::'' = Some (V6 0 '''')"
  by code_simp+

lemma zero_checks: "checkDestinationIP (V6 0 ''1'') = None"
  "checkDestinationIP (V6 0 '''') = Some (Wrapf ''%w: non-public address'' [] errDestinationDenied)"
  by (simp_all add: checkDestinationIP_def reservedDestinationPrefixes_def)

lemma zero_text: "JoinHostPort (v6_text (v6_groups 0) @ zone_text ''1'') ''80'' = ''[::%1]:80''"
proof -
  have v: "v6_groups 0 = [0, 0, 0, 0, 0, 0, 0, 0]" by (simp add: v6_groups_def upt_rec)
  show ?thesis unfolding v by code_simp
qed

lemma doc_literals: "ParseAddr ''2001:db8::1'' = Some (V6 0x20010db8000000000000000000000001 '''')"
  "ParseAddr ''2001:db8::1%x'' = Some (V6 0x20010db8000000000000000000000001 ''x'')"
proof -
  have l: "v6_loop 8 [] None ''2001:db8::1'' = Some ([0x2001, 0xdb8, 1], Some 2, '''')" by code_simp
  have s: "Cut ''2001:db8::1'' CHR ''%'' = None" "HasPrefix ''2001:db8::1'' ''::'' = False"
    "Cut ''2001:db8::1%x'' CHR ''%'' = Some (''2001:db8::1'', ''x'')"
    "dropWhile (\<lambda>c. c \<noteq> CHR ''.'' \<and> c \<noteq> CHR '':'' \<and> c \<noteq> CHR ''%'') ''2001:db8::1'' = '':db8::1''"
    "dropWhile (\<lambda>c. c \<noteq> CHR ''.'' \<and> c \<noteq> CHR '':'' \<and> c \<noteq> CHR ''%'') ''2001:db8::1%x'' = '':db8::1%x''"
    by code_simp+
  have e: "v6_expand [a, b, c] (Some 2) = Some [a, b, 0, 0, 0, 0, 0, c]" for a b c
    by (simp add: v6_expand_def numeral_eq_Suc)
  show "ParseAddr ''2001:db8::1'' = Some (V6 0x20010db8000000000000000000000001 '''')"
    "ParseAddr ''2001:db8::1%x'' = Some (V6 0x20010db8000000000000000000000001 ''x'')"
    unfolding ParseAddr_def s parseIPv6_def by (simp_all add: s l e ip6_def)
qed

lemma doc_checks: "checkDestinationIP (V6 0x20010db8000000000000000000000001 ''x'') = None"
  "checkDestinationIP (V6 0x20010db8000000000000000000000001 '''') = Some (Wrapf ''%w: reserved address'' [] errDestinationDenied)"
  by (simp_all add: checkDestinationIP_def reservedDestinationPrefixes_def ip6_def)

lemma doc_text: "JoinHostPort (v6_text (v6_groups 0x20010db8000000000000000000000001) @ zone_text ''x'') ''80'' = ''[2001:db8::1%x]:80''"
proof -
  have v: "v6_groups 0x20010db8000000000000000000000001 = [0x2001, 0xdb8, 0, 0, 0, 0, 0, 1]"
    by (simp add: v6_groups_def upt_rec)
  have h: "hex_digits 0x2001 = ''2001''" "hex_digits 0xdb8 = ''db8''" "hex_digits (Suc 0) = ''1''"
    by (simp_all add: hex_digits.simps char_of_def bit_0)
  have "zero_run [0x2001, 0xdb8, 0, 0, 0, 0, 0, 1] = (2, 5)" by (simp add: zero_run_def upt_rec)
  then have "v6_text [0x2001, 0xdb8, 0, 0, 0, 0, 0, 1] = ''2001:db8::1''" by (simp add: v6_text_def h)
  then show ?thesis by (simp add: v JoinHostPort_def zone_text_def)
qed

section \<open>Properties\<close>

text \<open>
  C7: \<^verbatim>\<open>checkDestinationIP\<close> accepts exactly the addresses that, unmapped, lie outside every
  special-purpose block of the tables \<open>special_v4\<close> and \<open>special_v6\<close>, read as intervals of numbers,
  and the zoned IPv6 addresses of the two blocks the zone hides.
\<close>

theorem destination_ip_exact:
  "checkDestinationIP a = None \<longleftrightarrow> public_addr (Unmap a) \<or> zone_hidden (Unmap a)"
  by (rule checkDestinationIP_iff)

text \<open>
  C6: With private destinations disallowed, a well-formed destination on an unblocked port is
  approved exactly when its host is not a localhost name, it is an IP literal or resolves, and every
  address it stands for passes the check; the approved addresses are those addresses, unmapped and
  without duplicates, in the order given, on the same port.
\<close>

theorem approve_exact:
  assumes "destination_parts address host portText port" and "port \<notin> blockedPorts a" and "\<not> allowPrivate a"
  shows "approve a lookup network address = Inr d \<longleftrightarrow>
     \<not> localhost_name host \<and>
     (\<exists>ips. candidates lookup network host = Inr ips \<and> ips \<noteq> [] \<and> (\<forall>ip \<in> set ips. checkDestinationIP ip = None) \<and>
        d = \<lparr>original = address, addresses = approved_addresses ips portText\<rparr>)"
  by (rule approve_public_iff [OF assms])

theorem approve_exact_witness:
  "approve demo_acl demo_lookup ''tcp'' ''example.com:443'' =
     Inr \<lparr>original = ''example.com:443'', addresses = [''93.184.216.34:443'']\<rparr>"
  unfolding approve_exact [OF demo_parts(1) demo_port(1) demo_acl_fields(2)]
  by (simp add: demo_not_literal demo_candidates demo_v4_check demo_mapped_check demo_approved)

text \<open>
  C8: A well-formed destination is refused with an error that \<^verbatim>\<open>errors.Is\<close> identifies as
  \<^verbatim>\<open>errDestinationDenied\<close> when its port is blocked, however the port is spelled; and, with private
  destinations disallowed, when its host is a localhost name or any address it stands for fails the
  check, so a host cannot hide an internal address among public ones.
\<close>

theorem policy_denies:
  assumes "destination_parts address host portText port"
    and "port \<in> blockedPorts a \<or>
         \<not> allowPrivate a \<and> (localhost_name host \<or>
           (\<exists>ips ip. candidates lookup network host = Inr ips \<and> ip \<in> set ips \<and> checkDestinationIP ip \<noteq> None))"
  shows "\<exists>e. approve a lookup network address = Inl e \<and> errors_Is e errDestinationDenied"
proof (cases "port \<in> blockedPorts a")
  case True
  with approve_blocked [OF assms(1)] show ?thesis by simp
next
  case False
  with assms(2) have priv: "\<not> allowPrivate a" by simp
  show ?thesis
  proof (cases "localhost_name host")
    case True
    with False priv assms(1) show ?thesis
      by (auto simp: approve_def destination_parts_def localhost_name_def)
  next
    case nolocal: False
    with False assms(2) obtain ips ip where ips: "candidates lookup network host = Inr ips" "ip \<in> set ips"
      "checkDestinationIP ip \<noteq> None" by auto
    show ?thesis
    proof (cases "ParseAddr host")
      case None
      with ips obtain e where "approve_loop host portText ips {} [] = Inl e" "errors_Is e errDestinationDenied"
        using approve_loop_denied by blast
      with None ips nolocal False priv assms(1) show ?thesis
        by (auto simp: approve_def destination_parts_def localhost_name_def candidates_def Let_def)
    next
      case (Some x)
      with ips nolocal False priv assms(1) show ?thesis
        by (auto simp: approve_def destination_parts_def localhost_name_def candidates_def Let_def
            dest: checkDestinationIP_denied)
    qed
  qed
qed

theorem policy_denies_witness:
  "(\<exists>e. approve demo_acl demo_lookup ''tcp'' ''example.com:0022'' = Inl e \<and> errors_Is e errDestinationDenied) \<and>
   (\<exists>e. approve demo_acl demo_lookup ''tcp'' ''rebind.example:443'' = Inl e \<and> errors_Is e errDestinationDenied)"
proof
  show "\<exists>e. approve demo_acl demo_lookup ''tcp'' ''example.com:0022'' = Inl e \<and> errors_Is e errDestinationDenied"
    by (rule policy_denies [OF demo_parts(3)]) (simp add: demo_port)
  show "\<exists>e. approve demo_acl demo_lookup ''tcp'' ''rebind.example:443'' = Inl e \<and> errors_Is e errDestinationDenied"
    by (rule policy_denies [OF demo_parts(2)]) (use demo_acl_fields(2) demo_candidates(2) demo_v4_check(2) in auto)
qed

text \<open>
  C5: Whatever the resolver and the dialer do, every connection attempt of \<^verbatim>\<open>dial\<close> goes to an
  address the policy permits: with private destinations disallowed, the text of an address that was
  checked, and that is not an IPv4-mapped one, so neither a second resolution nor a mapped literal
  can substitute an internal address.
\<close>

theorem dial_contacts_only_permitted:
  assumes "dial a lookup (ctx_done \<circ> fst) (recording dialer) network address (w, []) = (r, (w', log))"
  shows "\<forall>(n, x) \<in> set log. n = network \<and> permitted a x"
proof (cases "approve a lookup network address")
  case (Inl e)
  with assms show ?thesis by (simp add: dial_def)
next
  case (Inr d)
  with assms have "dialApproved (ctx_done \<circ> fst) (recording dialer) network d (w, []) = (r, (w', log))"
    by (simp add: dial_def)
  then show ?thesis by (rule pol.dial_permitted [OF Inr, THEN conjunct2])
qed

theorem dial_contacts_only_permitted_witness:
  "dial demo_acl demo_lookup ((\<lambda>_. False) \<circ> fst) (recording demo_dialer) ''tcp'' ''example.com:443'' (1, []) =
     (Inr ''93.184.216.34:443'', (2, [(''tcp'', ''93.184.216.34:443'')])) \<and>
   permitted demo_acl ''93.184.216.34:443''"
proof -
  have d: "dial demo_acl demo_lookup ((\<lambda>_. False) \<circ> fst) (recording demo_dialer) ''tcp'' ''example.com:443'' (1, []) =
     (Inr ''93.184.216.34:443'', (2, [(''tcp'', ''93.184.216.34:443'')]))"
    by (simp add: dial_def demo_approve dialApproved_def demo_dialer_def)
  from dial_contacts_only_permitted [OF d] d show ?thesis by simp
qed

text \<open>
  \<^verbatim>\<open>dialApproved\<close> tries the approved addresses in order and each at most once: the attempts are
  a prefix of the list; it returns the connection of the last attempt, or else an error, and then it
  tried every address unless the context was done.
\<close>

theorem dial_in_order:
  assumes "dialApproved (ctx_done \<circ> fst) (recording dialer) network d (w, []) = (r, (w', log))"
  shows "\<exists>k \<le> length (addresses d). (addresses d \<noteq> [] \<longrightarrow> 0 < k) \<and> log = map (Pair network) (take k (addresses d)) \<and>
     (case r of Inr c \<Rightarrow> 0 < k \<and> (\<exists>v. dialer network (addresses d ! (k - 1)) v = (Inr c, w'))
              | Inl e \<Rightarrow> k < length (addresses d) \<longrightarrow> ctx_done w')"
proof -
  obtain q where q: "dial_loop (ctx_done \<circ> fst) (recording dialer) network (addresses d) [] (w, []) = (q, (w', log))"
    "(\<exists>c. q = Inr c \<and> r = Inr c) \<or> (\<exists>es e. q = Inl es \<and> r = Inl e)"
    using assms by (auto simp: dialApproved_def split: prod.splits sum.splits)
  from dial_loop_recording [OF q(1)] q(2) show ?thesis by auto
qed

theorem dial_in_order_witness:
  "dialApproved ((\<lambda>_. False) \<circ> fst) (recording demo_dialer) ''tcp''
      \<lparr>original = ''h:1'', addresses = [''192.0.2.1:1'', ''192.0.2.2:1'', ''192.0.2.3:1'']\<rparr> (0, []) =
     (Inr ''192.0.2.2:1'', (2, [(''tcp'', ''192.0.2.1:1''), (''tcp'', ''192.0.2.2:1'')])) \<and>
   (\<exists>k \<le> 3. [(''tcp'', ''192.0.2.1:1''), (''tcp'', ''192.0.2.2:1'')] =
      map (Pair ''tcp'') (take k [''192.0.2.1:1'', ''192.0.2.2:1'', ''192.0.2.3:1'']))"
proof -
  have d: "dialApproved ((\<lambda>_. False) \<circ> fst) (recording demo_dialer) ''tcp''
      \<lparr>original = ''h:1'', addresses = [''192.0.2.1:1'', ''192.0.2.2:1'', ''192.0.2.3:1'']\<rparr> (0, []) =
     (Inr ''192.0.2.2:1'', (2, [(''tcp'', ''192.0.2.1:1''), (''tcp'', ''192.0.2.2:1'')]))"
    by (simp add: dialApproved_def demo_dialer_def)
  from dial_in_order [OF d] d show ?thesis by (auto simp only: approvedDestination.simps list.size) (auto simp: numeral_eq_Suc)
qed

text \<open>
  C40: An IPv6 literal with a zone escapes the test for the unspecified address and for the
  documentation prefix: \<^verbatim>\<open>[::%1]:80\<close> and \<^verbatim>\<open>[2001:db8::1%x]:80\<close> are approved without a lookup,
  although the same addresses without the zone are denied.
\<close>

theorem zoned_literal_bypass:
  "approve demo_acl lookup network ''[::%1]:80'' = Inr \<lparr>original = ''[::%1]:80'', addresses = [''[::%1]:80'']\<rparr> \<and>
   approve demo_acl lookup network ''[2001:db8::1%x]:80'' =
     Inr \<lparr>original = ''[2001:db8::1%x]:80'', addresses = [''[2001:db8::1%x]:80'']\<rparr> \<and>
   approve demo_acl lookup network ''[::]:80'' = Inl (Wrapf ''%w: non-public address'' [] errDestinationDenied) \<and>
   approve demo_acl lookup network ''[2001:db8::1]:80'' = Inl (Wrapf ''%w: reserved address'' [] errDestinationDenied)"
  (is "?a \<and> ?b \<and> ?c \<and> ?d")
proof -
  have parts: "destination_parts ''[::%1]:80'' ''::%1'' ''80'' 80" "destination_parts ''[::]:80'' ''::'' ''80'' 80"
    "destination_parts ''[2001:db8::1%x]:80'' ''2001:db8::1%x'' ''80'' 80"
    "destination_parts ''[2001:db8::1]:80'' ''2001:db8::1'' ''80'' 80" by code_simp+
  have names: "\<not> localhost_name ''::%1''" "\<not> localhost_name ''::''" "\<not> localhost_name ''2001:db8::1%x''"
    "\<not> localhost_name ''2001:db8::1''" by code_simp+
  note literal = approve_literal [OF _ demo_port(3) demo_acl_fields(2)]
  have ?a using literal [OF parts(1) names(1) zero_literals(1)] by (simp add: zero_checks zero_text)
  moreover have ?b using literal [OF parts(3) names(3) doc_literals(2)] by (simp add: doc_checks doc_text)
  moreover have ?c using literal [OF parts(2) names(2) zero_literals(2)] by (simp add: zero_checks)
  moreover have ?d using literal [OF parts(4) names(4) doc_literals(1)] by (simp add: doc_checks)
  ultimately show ?thesis by blast
qed

text \<open>
  The destination of a plain request is its host with its port, or the default port of its
  scheme; it splits again into that host and port, for a host without brackets.
\<close>

theorem request_destination_splits:
  assumes "requestDestination u = Inr address" and "CHR ''['' \<notin> set (Hostname u)" and "CHR '']'' \<notin> set (Hostname u)"
  shows "\<exists>port. SplitHostPort address = Inr (Hostname u, port) \<and> Hostname u \<noteq> '''' \<and>
     port = (if Port u \<noteq> '''' then Port u else if ToLower (url_Scheme u) = ''http'' then ''80'' else ''443'') \<and>
     (Port u = '''' \<longrightarrow> ToLower (url_Scheme u) \<in> {''http'', ''https''})"
proof -
  define port where "port = (if Port u \<noteq> '''' then Port u else if ToLower (url_Scheme u) = ''http'' then ''80'' else ''443'')"
  have a: "address = JoinHostPort (Hostname u) port" "Hostname u \<noteq> ''''" "Port u = '''' \<longrightarrow> ToLower (url_Scheme u) \<in> {''http'', ''https''}"
    using assms(1) by (auto simp: requestDestination_def Let_def port_def split: if_splits)
  have "list_all is_digit port"
    using Port_digits [of u] by (auto simp: port_def is_digit_def)
  then have "CHR '':'' \<notin> set port" "CHR ''['' \<notin> set port" "CHR '']'' \<notin> set port"
    by (auto simp: list_all_iff is_digit_def)
  then have "SplitHostPort address = Inr (Hostname u, port)"
    unfolding a(1) using assms(2,3) by (intro SplitHostPort_JoinHostPort) auto
  with a show ?thesis by (auto simp: port_def)
qed

theorem request_destination_splits_witness:
  "requestDestination (empty_url\<lparr>url_Scheme := ''HTTP'', url_Host := ''[2001:db8::7]''\<rparr>) = Inr ''[2001:db8::7]:80'' \<and>
   SplitHostPort ''[2001:db8::7]:80'' = Inr (''2001:db8::7'', ''80'')"
proof -
  let ?u = "empty_url\<lparr>url_Scheme := ''HTTP'', url_Host := ''[2001:db8::7]''\<rparr>"
  have r: "requestDestination ?u = Inr ''[2001:db8::7]:80''" by code_simp
  have h: "Hostname ?u = ''2001:db8::7''" "Port ?u = ''''" "ToLower ''HTTP'' = ''http''" by code_simp+
  from request_destination_splits [OF r] r show ?thesis by (simp add: h)
qed

end
