(* ===== verification/Headers.thy ===== *)
theory Headers
  imports Go_Http
begin

text \<open>
  Header handling, \<^verbatim>\<open>internal/proxy/headers.go\<close> and \<^verbatim>\<open>removeHopByHopHeaders\<close> of
  \<^verbatim>\<open>server.go\<close>: hop-by-hop and privacy headers, \<^verbatim>\<open>Via\<close>, and the copying of headers and
  trailers.  The position of an entry in a header list stands for the iteration order of the Go
  map, so the statements hold for every order.
\<close>

section \<open>Definitions\<close>

definition viaReceivedBy :: string where
  "viaReceivedBy = ''https_proxy''"

definition privacyHeaderNames :: "string list" where
  "privacyHeaderNames =
     [''cf-connecting-ip'', ''client-ip'', ''do-connecting-ip'', ''fastly-client-ip'', ''fly-client-ip'',
      ''forwarded'', ''remote-addr'', ''true-client-ip'', ''via'', ''x-appengine-user-ip'',
      ''x-azure-clientip'', ''x-client-ip'', ''x-cluster-client-ip'', ''x-envoy-external-address'',
      ''x-forwarded'', ''x-originating-ip'', ''x-original-forwarded-for'', ''x-proxyuser-ip'',
      ''x-real-ip'', ''x-remote-addr'', ''x-remote-ip'']"

text \<open>The built-in \<^verbatim>\<open>delete\<close> on the map: the name as it is, not its canonical form.\<close>

definition removePrivacyHeaders :: "header \<Rightarrow> header" where
  "removePrivacyHeaders header =
     foldl (\<lambda>header name.
        let normalized = ToLower name in
        if normalized \<in> set privacyHeaderNames \<or> HasPrefix normalized ''x-forwarded-''
        then AList.delete name header else header) header (map fst header)"

text \<open>
  The body wrapper: \<open>'b\<close> is the wrapped reader, whose reads may fill the trailer map both share.
  \<open>inner b n trailer\<close> is the outcome of its \<^verbatim>\<open>Read\<close> into a buffer of \<open>n\<close> bytes.
\<close>

record 'b privacyTrailerBody =
  ptb_ReadCloser :: 'b
  ptb_trailer :: header

definition privacyTrailerBody_Read ::
  "('b \<Rightarrow> nat \<Rightarrow> header \<Rightarrow> (string \<times> err option) \<times> 'b \<times> header) \<Rightarrow> 'b privacyTrailerBody \<Rightarrow> nat
     \<Rightarrow> (string \<times> err option) \<times> 'b privacyTrailerBody" where
  "privacyTrailerBody_Read inner b n =
     (case inner (ptb_ReadCloser b) n (ptb_trailer b) of
        ((data, e), body, trailer) \<Rightarrow>
          ((data, e), b\<lparr>ptb_ReadCloser := body,
                        ptb_trailer := (if e = Some EOF then removePrivacyHeaders trailer else trailer)\<rparr>))"

definition hopByHopHeaders :: "string list" where
  "hopByHopHeaders =
     [''Connection'', ''Keep-Alive'', ''Proxy-Authenticate'', ''Proxy-Authorization'', ''Proxy-Connection'',
      ''TE'', ''Trailer'', ''Transfer-Encoding'', ''Upgrade'']"

definition removeHopByHopHeaders :: "header \<Rightarrow> header" where
  "removeHopByHopHeaders header =
     (let header =
        foldl (\<lambda>header value.
           foldl (\<lambda>header name. let name = TrimSpace name in if name \<noteq> '''' then Del header name else header)
             header (Split value CHR '',''))
          header (Values header ''Connection'')
      in foldl Del header hopByHopHeaders)"

definition appendVia :: "header \<Rightarrow> int \<Rightarrow> int \<Rightarrow> header" where
  "appendVia header protoMajor protoMinor =
     Add header ''Via'' (Itoa protoMajor @ ''.'' @ Itoa protoMinor @ '' '' @ viaReceivedBy)"

definition forwardedVia :: "header \<Rightarrow> int \<Rightarrow> int \<Rightarrow> string" where
  "forwardedVia header protoMajor protoMinor =
     (let forwardedHeader = header;
          forwardedHeader = removeHopByHopHeaders forwardedHeader;
          forwardedHeader = appendVia forwardedHeader protoMajor protoMinor
      in Join (Values forwardedHeader ''Via'') '', '')"

definition headerValuesContainToken :: "string list \<Rightarrow> string \<Rightarrow> bool" where
  "headerValuesContainToken values token =
     list_ex (\<lambda>value. list_ex (\<lambda>part. EqualFold (TrimSpace part) token) (Split value CHR '','')) values"

definition copyHeaders :: "header \<Rightarrow> header \<Rightarrow> header" where
  "copyHeaders destination source =
     foldl (\<lambda>destination (key, values). foldl (\<lambda>destination value. Add destination key value) destination values)
       destination source"

definition announceTrailers :: "header \<Rightarrow> header \<Rightarrow> header \<times> nat" where
  "announceTrailers header trailers =
     (let announced = length trailers in
      if announced = 0 then (header, 0)
      else (Add header ''Trailer'' (Join (map fst trailers) '', ''), announced))"

definition TrailerPrefix :: string where
  "TrailerPrefix = ''Trailer:''"

definition copyTrailers :: "header \<Rightarrow> header \<Rightarrow> nat \<Rightarrow> header" where
  "copyTrailers header trailers announced =
     (if length trailers = announced then copyHeaders header trailers
      else foldl (\<lambda>header (key, values). foldl (\<lambda>header value. Add header (TrailerPrefix @ key) value) header values)
             header trailers)"

section \<open>Removal\<close>

definition privacy_name :: "string \<Rightarrow> bool" where
  "privacy_name k \<longleftrightarrow> ToLower k \<in> set privacyHeaderNames \<or> HasPrefix (ToLower k) ''x-forwarded-''"

lemma delete_loop:
  "foldl (\<lambda>h n. if P n then AList.delete n h else h) h ns = filter (\<lambda>(k, v). \<not> (P k \<and> k \<in> set ns)) h"
proof (induction ns arbitrary: h)
  case (Cons n ns)
  then show ?case
    by (auto simp: AList.delete_eq filter_filter intro!: filter_cong)
qed (simp add: case_prod_unfold)

lemma removePrivacyHeaders_filter: "removePrivacyHeaders h = filter (\<lambda>(k, v). \<not> privacy_name k) h"
proof -
  have "removePrivacyHeaders h = foldl (\<lambda>h n. if privacy_name n then AList.delete n h else h) h (map fst h)"
    by (simp add: removePrivacyHeaders_def privacy_name_def Let_def)
  then show ?thesis
    by (auto simp: delete_loop intro!: filter_cong) force
qed

lemma map_of_filter_key: "map_of (filter (\<lambda>(k, v). P k) h) k = (if P k then map_of h k else None)"
  by (induction h) auto

lemma map_of_removePrivacyHeaders: "map_of (removePrivacyHeaders h) k = (if privacy_name k then None else map_of h k)"
  by (simp add: removePrivacyHeaders_filter map_of_filter_key)

lemma map_of_foldl_Del: "map_of (foldl Del h ns) k = (if k \<in> CanonicalHeaderKey ` set ns then None else map_of h k)"
  by (induction ns arbitrary: h) auto

text \<open>The names nominated by the \<^verbatim>\<open>Connection\<close> values.\<close>

definition connection_names :: "header \<Rightarrow> string list" where
  "connection_names h =
     filter (\<lambda>n. n \<noteq> '''') (map TrimSpace (concat (map (\<lambda>v. Split v CHR '','') (Values h ''Connection''))))"

lemma connection_loop:
  "foldl (\<lambda>h v. foldl (\<lambda>h n. let n = TrimSpace n in if n \<noteq> '''' then Del h n else h) h (Split v CHR '','')) h vs =
   foldl Del h (filter (\<lambda>n. n \<noteq> '''') (map TrimSpace (concat (map (\<lambda>v. Split v CHR '','') vs))))"
proof -
  have inner: "foldl (\<lambda>h n. let n = TrimSpace n in if n \<noteq> '''' then Del h n else h) h ns =
      foldl Del h (filter (\<lambda>n. n \<noteq> '''') (map TrimSpace ns))" for h ns
    by (induction ns arbitrary: h) (simp_all add: Let_def)
  show ?thesis by (induction vs arbitrary: h) (simp_all add: inner)
qed

lemma removeHopByHopHeaders_eq: "removeHopByHopHeaders h = foldl Del h (connection_names h @ hopByHopHeaders)"
  unfolding removeHopByHopHeaders_def connection_loop connection_names_def foldl_append by (simp only: Let_def)

definition hop_by_hop :: "header \<Rightarrow> string \<Rightarrow> bool" where
  "hop_by_hop h k \<longleftrightarrow> k \<in> CanonicalHeaderKey ` set (connection_names h @ hopByHopHeaders)"

lemma map_of_removeHopByHopHeaders:
  "map_of (removeHopByHopHeaders h) k = (if hop_by_hop h k then None else map_of h k)"
  by (simp only: removeHopByHopHeaders_eq map_of_foldl_Del hop_by_hop_def)

lemma header_ok_filter: "header_ok h \<Longrightarrow> header_ok (filter P h)"
  by (auto simp: header_ok_def intro: distinct_map_filter)

lemma header_ok_foldl_Del: "header_ok h \<Longrightarrow> header_ok (foldl Del h ns)"
  by (induction ns arbitrary: h) auto

lemma header_ok_removal [simp]:
  "header_ok h \<Longrightarrow> header_ok (removePrivacyHeaders h)" "header_ok h \<Longrightarrow> header_ok (removeHopByHopHeaders h)"
  by (simp_all add: removePrivacyHeaders_filter header_ok_filter removeHopByHopHeaders_eq header_ok_foldl_Del)

section \<open>Copying\<close>

lemma Values_conv: "Values h k = (case map_of h (CanonicalHeaderKey k) of None \<Rightarrow> [] | Some vs \<Rightarrow> vs)"
  by (simp add: Values_def)

lemma map_of_Adds:
  "map_of (foldl (\<lambda>d v. Add d key v) d vs) k =
     (if vs \<noteq> [] \<and> k = CanonicalHeaderKey key then Some (Values d key @ vs) else map_of d k)"
proof (induction vs arbitrary: d)
  case (Cons v vs)
  then show ?case by (auto simp: header_eq_iff_map)
qed simp

text \<open>All values of a source list whose key has the canonical form \<open>k\<close>, in list order.\<close>

definition values_for :: "(string \<Rightarrow> string) \<Rightarrow> string \<Rightarrow> header \<Rightarrow> string list" where
  "values_for f k s = concat (map snd (filter (\<lambda>(key, vs). CanonicalHeaderKey (f key) = k) s))"

lemma map_of_copy:
  "map_of (foldl (\<lambda>d (key, vs). foldl (\<lambda>d v. Add d (f key) v) d vs) d s) k =
     (if values_for f k s = [] then map_of d k
      else Some ((case map_of d k of None \<Rightarrow> [] | Some vs \<Rightarrow> vs) @ values_for f k s))"
proof (induction s arbitrary: d)
  case (Cons e s)
  obtain key vs where e: "e = (key, vs)" by (cases e)
  show ?case
    by (auto simp: e Cons.IH map_of_Adds values_for_def Values_def split: option.splits)
qed (simp add: values_for_def)

lemma map_of_copyHeaders:
  "map_of (copyHeaders d s) k =
     (if values_for (\<lambda>x. x) k s = [] then map_of d k
      else Some ((case map_of d k of None \<Rightarrow> [] | Some vs \<Rightarrow> vs) @ values_for (\<lambda>x. x) k s))"
  unfolding copyHeaders_def by (rule map_of_copy)

text \<open>On a map with canonical keys the values are those of the key.\<close>

definition canonical_header :: "header \<Rightarrow> bool" where
  "canonical_header h \<longleftrightarrow> header_ok h \<and> (\<forall>k \<in> set (map fst h). CanonicalHeaderKey k = k)"

lemma values_for_canonical:
  assumes "canonical_header s"
  shows "values_for (\<lambda>x. x) k s = (case map_of s k of None \<Rightarrow> [] | Some vs \<Rightarrow> vs)"
  using assms
proof (induction s)
  case (Cons e s)
  obtain key vs where e: "e = (key, vs)" by (cases e)
  have c: "CanonicalHeaderKey key = key" "canonical_header s" "map_of s key = None"
    using Cons.prems e by (auto simp: canonical_header_def header_ok_def map_of_eq_None_iff)
  show ?case
    using Cons.IH [OF c(2)] c(1,3) by (auto simp: e values_for_def)
qed (simp add: values_for_def)

lemma canonical_via: "CanonicalHeaderKey ''Via'' = ''Via''"
  by code_simp

lemma via_not_fixed: "''Via'' \<notin> CanonicalHeaderKey ` set hopByHopHeaders"
  by code_simp

lemma Values_appendVia:
  "Values (appendVia h M m) k =
     Values h k @ (if CanonicalHeaderKey k = ''Via'' then [Itoa M @ ''.'' @ Itoa m @ '' '' @ viaReceivedBy] else [])"
  by (auto simp: appendVia_def Values_def canonical_via)

lemma Values_removeHopByHopHeaders:
  "Values (removeHopByHopHeaders h) k = (if hop_by_hop h (CanonicalHeaderKey k) then [] else Values h k)"
  by (simp add: Values_def map_of_removeHopByHopHeaders)

lemma Values_removePrivacyHeaders:
  "Values (removePrivacyHeaders h) k = (if privacy_name (CanonicalHeaderKey k) then [] else Values h k)"
  by (simp add: Values_def map_of_removePrivacyHeaders)

lemma trailer_key: "CanonicalHeaderKey (TrailerPrefix @ k) = TrailerPrefix @ k"
proof -
  have "\<not> token_byte CHR '':''" by code_simp
  then have "\<not> list_all token_byte (TrailerPrefix @ k)" by (simp add: TrailerPrefix_def)
  then show ?thesis by (simp only: CanonicalHeaderKey_def if_False)
qed

lemma values_for_trailer:
  assumes "header_ok t"
  shows "values_for (\<lambda>k. TrailerPrefix @ k) (TrailerPrefix @ k) t = (case map_of t k of None \<Rightarrow> [] | Some vs \<Rightarrow> vs)"
  using assms
proof (induction t)
  case (Cons e t)
  obtain key vs where e: "e = (key, vs)" by (cases e)
  have c: "header_ok t" "map_of t key = None"
    using Cons.prems e by (auto simp: header_ok_def map_of_eq_None_iff)
  show ?case
    using Cons.IH [OF c(1)] c(2) by (auto simp: e values_for_def trailer_key)
qed (simp add: values_for_def)

section \<open>Properties\<close>

text \<open>
  C29: \<^verbatim>\<open>removeHopByHopHeaders\<close> deletes exactly the nine hop-by-hop headers and the headers named
  in the \<^verbatim>\<open>Connection\<close> values, under their canonical names, and leaves every other entry as it
  was, although it deletes from the map it reads the names from.
\<close>

theorem hop_by_hop_exact:
  "map_of (removeHopByHopHeaders h) k =
     (if k \<in> {''Connection'', ''Keep-Alive'', ''Proxy-Authenticate'', ''Proxy-Authorization'', ''Proxy-Connection'',
               ''Te'', ''Trailer'', ''Transfer-Encoding'', ''Upgrade''} \<or>
         (\<exists>v \<in> set (Values h ''Connection''). \<exists>n \<in> set (Split v CHR '',''). TrimSpace n \<noteq> '''' \<and> k = CanonicalHeaderKey (TrimSpace n))
      then None else map_of h k)"
proof -
  have "CanonicalHeaderKey ` set hopByHopHeaders =
      {''Connection'', ''Keep-Alive'', ''Proxy-Authenticate'', ''Proxy-Authorization'', ''Proxy-Connection'',
               ''Te'', ''Trailer'', ''Transfer-Encoding'', ''Upgrade''}"
    by code_simp
  moreover have "k \<in> CanonicalHeaderKey ` set (connection_names h) \<longleftrightarrow>
      (\<exists>v \<in> set (Values h ''Connection''). \<exists>n \<in> set (Split v CHR '',''). TrimSpace n \<noteq> '''' \<and> k = CanonicalHeaderKey (TrimSpace n))"
    unfolding connection_names_def by auto
  ultimately show ?thesis
    unfolding map_of_removeHopByHopHeaders hop_by_hop_def set_append image_Un Un_iff by (simp only: disj_commute)
qed

text \<open>
  C30: Removing the privacy headers keeps exactly the entries whose name, in any case, is neither in
  the list nor begins with \<^verbatim>\<open>x-forwarded-\<close>, in their order; and the body wrapper applies it to the
  trailers whenever a read reports the end of the body, whatever the wrapped reader put there.
\<close>

theorem privacy_exact:
  "removePrivacyHeaders h = filter (\<lambda>(k, v). \<not> privacy_name k) h \<and>
   (case privacyTrailerBody_Read inner b n of
      ((data, e), b') \<Rightarrow>
        (case inner (ptb_ReadCloser b) n (ptb_trailer b) of
           ((data', e'), body, t) \<Rightarrow> data = data' \<and> e = e' \<and> ptb_ReadCloser b' = body \<and>
             ptb_trailer b' = (if e = Some EOF then filter (\<lambda>(k, v). \<not> privacy_name k) t else t)))"
  by (auto simp: removePrivacyHeaders_filter privacyTrailerBody_Read_def split: prod.splits)

text \<open>
  Copying a header map with canonical keys appends, for every name, its values to those already
  there, so the outcome does not depend on the order in which the map is visited.
\<close>

theorem copy_appends:
  assumes "canonical_header s"
  shows "Values (copyHeaders d s) k = Values d k @ Values s k"
  by (auto simp: Values_def map_of_copyHeaders values_for_canonical [OF assms] split: option.splits)

theorem copy_appends_witness:
  "Values (copyHeaders [(''Set-Cookie'', [''a=1''])] [(''Age'', [''3'']), (''Set-Cookie'', [''b=2'', ''c=3''])]) ''set-cookie'' =
     [''a=1'', ''b=2'', ''c=3'']"
proof -
  have "canonical_header [(''Age'', [''3'']), (''Set-Cookie'', [''b=2'', ''c=3''])]" by code_simp
  from copy_appends [OF this, of "[(''Set-Cookie'', [''a=1''])]" "''set-cookie''"] show ?thesis by code_simp
qed

text \<open>
  The \<^verbatim>\<open>Via\<close> value sent upstream for a tunnel is the client's chain, unless the client
  declared \<^verbatim>\<open>Via\<close> connection-specific, followed by this proxy's own entry.
\<close>

theorem via_chain:
  "forwardedVia h M m =
     Join ((if ''Via'' \<in> CanonicalHeaderKey ` set (connection_names h) then [] else Values h ''Via'') @
           [Itoa M @ ''.'' @ Itoa m @ '' https_proxy'']) '', ''"
proof -
  have "hop_by_hop h ''Via'' \<longleftrightarrow> ''Via'' \<in> CanonicalHeaderKey ` set (connection_names h)"
    using via_not_fixed by (auto simp: hop_by_hop_def)
  then show ?thesis
    by (simp add: forwardedVia_def Values_appendVia Values_removeHopByHopHeaders canonical_via viaReceivedBy_def)
qed

text \<open>
  Trailers reach the response: when their number is the announced one, under their own
  names, and otherwise under the prefixed name that \<^verbatim>\<open>net/http\<close> sends as an unannounced trailer.
\<close>

theorem trailers_copied:
  assumes "canonical_header t"
  shows "if length t = announced then Values (copyTrailers h t announced) k = Values h k @ Values t k
         else map_of t (CanonicalHeaderKey k) = Some vs \<longrightarrow>
              Values (copyTrailers h t announced) (TrailerPrefix @ CanonicalHeaderKey k) =
                Values h (TrailerPrefix @ CanonicalHeaderKey k) @ vs"
proof -
  have ok: "header_ok t" using assms by (simp add: canonical_header_def)
  have un: "length t \<noteq> announced \<Longrightarrow> copyTrailers h t announced =
      foldl (\<lambda>d (key, vs). foldl (\<lambda>d v. Add d (TrailerPrefix @ key) v) d vs) h t"
    by (simp add: copyTrailers_def)
  show ?thesis
    by (auto simp: un Values_def trailer_key map_of_copy values_for_trailer [OF ok] copyTrailers_def
        map_of_copyHeaders values_for_canonical [OF assms] split: option.splits)
qed

theorem trailers_copied_witness:
  "Values (copyTrailers [] [(''Checksum'', [''ab''])] 0) ''Trailer:Checksum'' = [''ab''] \<and>
   Values (copyTrailers [] [(''Checksum'', [''ab''])] 1) ''Checksum'' = [''ab'']"
proof -
  have c: "canonical_header [(''Checksum'', [''ab''])]" "CanonicalHeaderKey ''Checksum'' = ''Checksum''"
    "TrailerPrefix @ ''Checksum'' = ''Trailer:Checksum''" by code_simp+
  from trailers_copied [OF c(1), of 0 "[]" "''Checksum''" "[''ab'']"]
    trailers_copied [OF c(1), of 1 "[]" "''Checksum''" "[''ab'']"]
  show ?thesis by (simp add: c) (simp add: Values_def c)
qed

end
