(* ===== verification/Tunnel_Registry.thy ===== *)
theory Tunnel_Registry
  imports Go_Prelude "HOL-Library.AList"
begin

text \<open>
  The registry of active tunnels, \<^verbatim>\<open>Registry\<close> of \<^verbatim>\<open>internal/tunnel/tunnel.go\<close>.

  A connection is a number.  A \<^verbatim>\<open>*connectionPair\<close> is the number \<^verbatim>\<open>Track\<close> allocated for it;
  the map \<^verbatim>\<open>active\<close> is an association list from pointers to pairs, whose order stands for the
  iteration order.  Bodies under the mutex are single steps; the close loop of \<^verbatim>\<open>CloseAll\<close>
  runs without the mutex and closes one connection per step, interleaved with everything else.
\<close>

section \<open>Operations\<close>

record connectionPair =
  client :: nat
  dest :: nat

record Registry =
  closing :: bool
  active :: "(nat \<times> connectionPair) list"
  wg :: int
  next_pair :: nat

definition NewRegistry :: Registry where
  "NewRegistry = \<lparr>closing = False, active = [], wg = 0, next_pair = 0\<rparr>"

text \<open>\<open>None\<close> is the result \<^verbatim>\<open>nil, false\<close>; \<open>Some p\<close> the release closure of the pair \<open>p\<close>.\<close>

definition Track :: "nat \<Rightarrow> nat \<Rightarrow> Registry \<Rightarrow> Registry \<times> nat option" where
  "Track c d r =
     (let pair = next_pair r; r = r\<lparr>next_pair := pair + 1\<rparr> in
      if closing r then (r, None)
      else (r\<lparr>active := AList.update pair \<lparr>client = c, dest = d\<rparr> (active r), wg := wg r + 1\<rparr>, Some pair))"

definition untrack :: "nat \<Rightarrow> Registry \<Rightarrow> Registry" where
  "untrack pair r =
     (if map_of (active r) pair \<noteq> None then r\<lparr>active := AList.delete pair (active r), wg := wg r - 1\<rparr> else r)"

text \<open>The part of \<^verbatim>\<open>CloseAll\<close> under the mutex, with its snapshot, and the calls of the loop after it.\<close>

definition CloseAll_begin :: "Registry \<Rightarrow> Registry \<times> connectionPair list" where
  "CloseAll_begin r = (r\<lparr>closing := True\<rparr>, map snd (active r))"

definition CloseAll_calls :: "connectionPair list \<Rightarrow> nat list" where
  "CloseAll_calls pairs = concat (map (\<lambda>pair. [client pair, dest pair]) pairs)"

text \<open>
  The ways \<^verbatim>\<open>Wait\<close> can return: the group's counter is zero, or the context is done; when both
  hold, \<^verbatim>\<open>select\<close> takes either.
\<close>

inductive Wait :: "Registry \<Rightarrow> err option \<Rightarrow> err option \<Rightarrow> bool" where
  wait_done: "wg r = 0 \<Longrightarrow> Wait r ctx None"
| wait_ctx: "ctx = Some e \<Longrightarrow> Wait r ctx (Some e)"

code_pred Wait .

section \<open>Interleaved use\<close>

text \<open>
  The registry, the connections closed by \<^verbatim>\<open>CloseAll\<close> loops, and the remaining calls of each loop
  that was started.
\<close>

record tunnels =
  reg :: Registry
  closed :: "nat set"
  loops :: "nat list list"

inductive tunnel_step :: "tunnels \<Rightarrow> tunnels \<Rightarrow> bool" where
  t_track: "tunnel_step s (s\<lparr>reg := fst (Track c d (reg s))\<rparr>)"
| t_release: "tunnel_step s (s\<lparr>reg := untrack p (reg s)\<rparr>)"
| t_close_all: "CloseAll_begin (reg s) = (r, pairs) \<Longrightarrow>
     tunnel_step s (s\<lparr>reg := r, loops := loops s @ [CloseAll_calls pairs]\<rparr>)"
| t_close_one: "i < length (loops s) \<Longrightarrow> loops s ! i = x # xs \<Longrightarrow>
     tunnel_step s (s\<lparr>closed := insert x (closed s), loops := (loops s)[i := xs]\<rparr>)"

definition tunnels_init :: "tunnels \<Rightarrow> bool" where
  "tunnels_init s \<longleftrightarrow> s = \<lparr>reg = NewRegistry, closed = {}, loops = []\<rparr>"

section \<open>Invariants\<close>

definition registry_ok :: "Registry \<Rightarrow> bool" where
  "registry_ok r \<longleftrightarrow> distinct (map fst (active r)) \<and> wg r = int (length (active r)) \<and>
     (\<forall>p \<in> set (map fst (active r)). p < next_pair r)"

lemma registry_ok_new [simp]: "registry_ok NewRegistry"
  by (simp add: registry_ok_def NewRegistry_def)

lemma map_of_fresh: "registry_ok r \<Longrightarrow> map_of (active r) (next_pair r) = None"
  by (auto simp: registry_ok_def map_of_eq_None_iff)

lemma update_fresh: "k \<notin> fst ` set al \<Longrightarrow> AList.update k v al = al @ [(k, v)]"
  by (induction al) auto

lemma length_delete:
  "distinct (map fst al) \<Longrightarrow> map_of al k = Some v \<Longrightarrow> Suc (length (AList.delete k al)) = length al"
proof (induction al)
  case (Cons e al)
  obtain k' v' where e: "e = (k', v')" by (cases e)
  show ?case
  proof (cases "k' = k")
    case True
    with Cons.prems e have "k \<notin> fst ` set al" by simp
    then have "AList.delete k al = al" by (induction al) auto
    with True e show ?thesis by simp
  qed (use Cons e in auto)
qed simp

lemma Track_active:
  assumes "registry_ok r" and "\<not> closing r"
  shows "active (fst (Track c d r)) = active r @ [(next_pair r, \<lparr>client = c, dest = d\<rparr>)]"
  using assms by (subst Track_def) (auto simp: Let_def registry_ok_def intro!: update_fresh)

lemma registry_ok_Track: "registry_ok r \<Longrightarrow> registry_ok (fst (Track c d r))"
proof (cases "closing r")
  case True
  then show "registry_ok r \<Longrightarrow> ?thesis" by (auto simp: Track_def registry_ok_def)
next
  case False
  assume ok: "registry_ok r"
  have "wg (fst (Track c d r)) = wg r + 1" "next_pair (fst (Track c d r)) = next_pair r + 1"
    using False by (simp_all add: Track_def Let_def)
  then show ?thesis
    using ok Track_active [OF ok False, of c d] by (auto simp: registry_ok_def)
qed

lemma registry_ok_untrack: "registry_ok r \<Longrightarrow> registry_ok (untrack p r)"
proof (cases "map_of (active r) p")
  case (Some v)
  assume ok: "registry_ok r"
  have "set (AList.delete p (active r)) \<subseteq> set (active r)" by (auto simp: AList.delete_eq)
  then show ?thesis
    using ok Some length_delete [OF _ Some] distinct_delete [of "active r" p]
    by (auto simp: registry_ok_def untrack_def simp del: distinct_map)
qed (simp add: untrack_def)

lemma registry_ok_close: "registry_ok r \<Longrightarrow> registry_ok (fst (CloseAll_begin r))"
  by (simp add: CloseAll_begin_def registry_ok_def)

text \<open>Once closing, every connection of a tracked pair is closed or still to be closed by a loop.\<close>

definition tunnels_ok :: "tunnels \<Rightarrow> bool" where
  "tunnels_ok s \<longleftrightarrow> registry_ok (reg s) \<and> (closing (reg s) \<longleftrightarrow> loops s \<noteq> []) \<and>
     (closing (reg s) \<longrightarrow>
        (\<forall>pair \<in> set (map snd (active (reg s))).
           {client pair, dest pair} \<subseteq> closed s \<union> set (concat (loops s))))"

lemma set_calls: "set (CloseAll_calls pairs) = (\<Union>pair \<in> set pairs. {client pair, dest pair})"
  by (auto simp: CloseAll_calls_def)

lemma concat_update:
  "i < length xss \<Longrightarrow> xss ! i = x # xs \<Longrightarrow> set (concat xss) = insert x (set (concat (xss[i := xs])))"
proof (induction xss arbitrary: i)
  case (Cons ys xss)
  then show ?case by (cases i) auto
qed simp

lemma active_untrack: "set (active (untrack p r)) \<subseteq> set (active r)"
  by (auto simp: untrack_def AList.delete_eq)

interpretation tun: inductive_invariant tunnels_init tunnel_step tunnels_ok
proof
  fix s t
  assume ok: "tunnels_ok s" and "tunnel_step s t"
  from this(2) show "tunnels_ok t"
  proof cases
    case (t_track c d)
    then show ?thesis
      using ok registry_ok_Track [of "reg s" c d]
      by (auto simp: tunnels_ok_def Track_def Let_def)
  next
    case (t_release p)
    have "closing (untrack p (reg s)) = closing (reg s)" by (simp add: untrack_def)
    with t_release show ?thesis
      using ok registry_ok_untrack [of "reg s" p] active_untrack [of p "reg s"]
      by (fastforce simp: tunnels_ok_def)
  next
    case (t_close_all r pairs)
    have "pairs = map snd (active (reg s))" using t_close_all by (simp add: CloseAll_begin_def)
    then have c: "\<forall>pair \<in> set (map snd (active (reg s))). {client pair, dest pair} \<subseteq> set (CloseAll_calls pairs)"
      by (auto simp: set_calls)
    have "r = (reg s)\<lparr>closing := True\<rparr>" using t_close_all by (simp add: CloseAll_begin_def)
    with t_close_all c show ?thesis
      using ok registry_ok_close [of "reg s"]
      by (auto simp: tunnels_ok_def CloseAll_begin_def simp del: set_map)
  next
    case (t_close_one i x xs)
    have "loops s \<noteq> []" using t_close_one by auto
    with t_close_one show ?thesis
      using ok concat_update [OF t_close_one(2,3)] by (auto simp: tunnels_ok_def simp del: set_map set_concat)
  qed
qed (auto simp: tunnels_init_def tunnels_ok_def NewRegistry_def registry_ok_def)

lemma untrack_idem: "untrack p (untrack p r) = untrack p r"
  by (auto simp: untrack_def AList.delete_eq map_of_eq_None_iff)

lemma closing_stable:
  assumes "tunnel_step s t" and "closing (reg s)"
  shows "closing (reg t) \<and> set (active (reg t)) \<subseteq> set (active (reg s)) \<and> wg (reg t) \<le> wg (reg s)"
  using assms(1)
proof cases
  case (t_release p)
  then show ?thesis using assms(2) active_untrack [of p "reg s"] by (auto simp: untrack_def)
qed (use assms(2) in \<open>auto simp: Track_def Let_def CloseAll_begin_def\<close>)

lemma closing_stable_steps:
  assumes "tunnel_step\<^sup>*\<^sup>* s t" and "closing (reg s)"
  shows "closing (reg t) \<and> set (active (reg t)) \<subseteq> set (active (reg s)) \<and> wg (reg t) \<le> wg (reg s)"
  using assms by (induction rule: rtranclp_induct) (auto dest!: closing_stable)

lemma untrack_all:
  assumes "registry_ok r"
  shows "wg (fold untrack (map fst (active r)) r) = 0"
proof -
  have "registry_ok r \<Longrightarrow> fst ` set (active r) \<subseteq> set ps \<Longrightarrow> wg (fold untrack ps r) = 0" for ps r
  proof (induction ps arbitrary: r)
    case (Cons p ps)
    have "fst ` set (active (untrack p r)) \<subseteq> set ps"
      using Cons.prems by (auto simp: untrack_def AList.delete_eq map_of_eq_None_iff)
    with Cons registry_ok_untrack show ?case by simp
  qed (auto simp: registry_ok_def)
  from this [of r "map fst (active r)"] assms show ?thesis by simp
qed

section \<open>Properties\<close>

text \<open>
  Whatever the interleaving of tracking, releasing (any number of times) and shutting down, the
  wait group's counter is the number of tracked tunnels, so it never becomes negative, and
  \<^verbatim>\<open>Wait\<close> returns without error exactly when no tunnel is tracked; releasing twice is releasing
  once.
\<close>

theorem registry_counts:
  assumes "reachable tunnels_init tunnel_step s"
  shows "wg (reg s) = int (length (active (reg s))) \<and> distinct (map fst (active (reg s))) \<and>
     (Wait (reg s) ctx None \<longleftrightarrow> active (reg s) = []) \<and> untrack p (untrack p (reg s)) = untrack p (reg s)"
proof -
  have ok: "registry_ok (reg s)" using tun.reachable_inv [OF assms] by (simp add: tunnels_ok_def)
  then have "Wait (reg s) ctx None \<longleftrightarrow> active (reg s) = []"
    by (auto simp: registry_ok_def Wait.simps)
  with ok show ?thesis by (simp add: registry_ok_def untrack_idem)
qed

text \<open>
  C24: Shutdown reaches every tunnel: once \<^verbatim>\<open>CloseAll\<close> has begun, no further tunnel is tracked,
  and when the close loops have run to their end both connections of every tunnel still tracked are
  closed, whatever ran in between; if those tunnels then release, \<^verbatim>\<open>Wait\<close> returns.
\<close>

theorem close_all_complete:
  assumes "reachable tunnels_init tunnel_step s" and "closing (reg s)"
  shows "(\<forall>t c d. tunnel_step\<^sup>*\<^sup>* s t \<longrightarrow> snd (Track c d (reg t)) = None \<and>
           set (active (reg t)) \<subseteq> set (active (reg s)) \<and>
           ((\<forall>l \<in> set (loops t). l = []) \<longrightarrow>
              (\<forall>pair \<in> set (map snd (active (reg t))). client pair \<in> closed t \<and> dest pair \<in> closed t))) \<and>
         Wait (fold untrack (map fst (active (reg s))) (reg s)) ctx None"
proof -
  have ok: "tunnels_ok s" using tun.reachable_inv [OF assms(1)] .
  have "snd (Track c d (reg t)) = None \<and> set (active (reg t)) \<subseteq> set (active (reg s)) \<and>
           ((\<forall>l \<in> set (loops t). l = []) \<longrightarrow>
              (\<forall>pair \<in> set (map snd (active (reg t))). client pair \<in> closed t \<and> dest pair \<in> closed t))"
    if "tunnel_step\<^sup>*\<^sup>* s t" for t c d
  proof -
    have "tunnels_ok t" using tun.steps_inv [OF that ok] .
    moreover have "closing (reg t)" "set (active (reg t)) \<subseteq> set (active (reg s))"
      using closing_stable_steps [OF that assms(2)] by auto
    moreover have "set (concat (loops t)) = {}" if "\<forall>l \<in> set (loops t). l = []"
      using that by auto
    ultimately show ?thesis by (fastforce simp: tunnels_ok_def Track_def Let_def)
  qed
  moreover have "Wait (fold untrack (map fst (active (reg s))) (reg s)) ctx None"
    using ok untrack_all by (auto simp: tunnels_ok_def intro: wait_done)
  ultimately show ?thesis by blast
qed

text \<open>A run for the witnesses: two tunnels, shutdown begins, one is released, the loop closes everything.\<close>

definition demo_closed :: tunnels where
  "demo_closed = \<lparr>reg = \<lparr>closing = True, active = [(1, \<lparr>client = 30, dest = 40\<rparr>)], wg = 1, next_pair = 2\<rparr>,
     closed = {10, 20, 30, 40}, loops = [[]]\<rparr>"

lemma demo_run: "reachable tunnels_init tunnel_step demo_closed"
proof -
  let ?s0 = "\<lparr>reg = NewRegistry, closed = {}, loops = []\<rparr> :: tunnels"
  let ?s1 = "?s0\<lparr>reg := fst (Track 10 20 (reg ?s0))\<rparr>"
  let ?s2 = "?s1\<lparr>reg := fst (Track 30 40 (reg ?s1))\<rparr>"
  let ?s3 = "?s2\<lparr>reg := fst (CloseAll_begin (reg ?s2)), loops := loops ?s2 @ [[10, 20, 30, 40]]\<rparr>"
  let ?s4 = "?s3\<lparr>reg := untrack 0 (reg ?s3)\<rparr>"
  have "reachable tunnels_init tunnel_step ?s0" by (rule reach_init) (simp add: tunnels_init_def)
  then have "reachable tunnels_init tunnel_step ?s1" by (rule reach_step) (rule t_track)
  then have r2: "reachable tunnels_init tunnel_step ?s2" by (rule reach_step) (rule t_track)
  have "tunnel_step ?s2 ?s3"
    using t_close_all [of ?s2 "fst (CloseAll_begin (reg ?s2))" "[\<lparr>client = 10, dest = 20\<rparr>, \<lparr>client = 30, dest = 40\<rparr>]"]
    by (simp add: CloseAll_begin_def Track_def NewRegistry_def CloseAll_calls_def Let_def)
  with r2 have "reachable tunnels_init tunnel_step ?s3" by (rule reach_step)
  then have r4: "reachable tunnels_init tunnel_step ?s4" by (rule reach_step) (rule t_release)
  have one: "tunnel_step (s\<lparr>loops := [x # xs]\<rparr>) (s\<lparr>closed := insert x (closed s), loops := [xs]\<rparr>)" for s x xs
    using t_close_one [of 0 "s\<lparr>loops := [x # xs]\<rparr>" x xs] by simp
  have four: "reachable tunnels_init tunnel_step (s\<lparr>loops := [[a, b, c, d]]\<rparr>) \<Longrightarrow>
      reachable tunnels_init tunnel_step (s\<lparr>closed := insert d (insert c (insert b (insert a (closed s)))), loops := [[]]\<rparr>)"
    for s a b c d
    using one [where s = s and x = a and xs = "[b, c, d]"]
      one [where s = "s\<lparr>closed := insert a (closed s)\<rparr>" and x = b and xs = "[c, d]"]
      one [where s = "s\<lparr>closed := insert b (insert a (closed s))\<rparr>" and x = c and xs = "[d]"]
      one [where s = "s\<lparr>closed := insert c (insert b (insert a (closed s)))\<rparr>" and x = d and xs = "[]"]
    by simp (blast intro: reach_step)
  have "?s4\<lparr>loops := [[10, 20, 30, 40]]\<rparr> = ?s4" by simp
  with r4 four [where s = ?s4 and a = 10 and b = 20 and c = 30 and d = 40] have
    "reachable tunnels_init tunnel_step (?s4\<lparr>closed := insert 40 (insert 30 (insert 20 (insert 10 (closed ?s4)))), loops := [[]]\<rparr>)"
    by simp
  moreover have "?s4\<lparr>closed := insert 40 (insert 30 (insert 20 (insert 10 (closed ?s4)))), loops := [[]]\<rparr> = demo_closed"
    by (auto simp: demo_closed_def CloseAll_begin_def Track_def NewRegistry_def untrack_def Let_def)
  ultimately show ?thesis by simp
qed

theorem registry_counts_witness:
  "wg (reg demo_closed) = 1 \<and> \<not> Wait (reg demo_closed) (Some Canceled) None"
  using registry_counts [OF demo_run, of "Some Canceled"] by (simp add: demo_closed_def)

theorem close_all_complete_witness:
  "snd (Track 50 60 (reg demo_closed)) = None \<and>
   {30, 40} \<subseteq> closed demo_closed \<and> map snd (active (reg demo_closed)) = [\<lparr>client = 30, dest = 40\<rparr>] \<and>
   Wait (untrack 1 (reg demo_closed)) None None"
proof -
  have c: "closing (reg demo_closed)" "\<forall>l \<in> set (loops demo_closed). l = []"
    "fold untrack (map fst (active (reg demo_closed))) (reg demo_closed) = untrack 1 (reg demo_closed)"
    by (simp_all add: demo_closed_def)
  have a: "map snd (active (reg demo_closed)) = [\<lparr>client = 30, dest = 40\<rparr>]" by (simp add: demo_closed_def)
  from close_all_complete [OF demo_run c(1), of None]
  have "snd (Track 50 60 (reg demo_closed)) = None \<and>
      ((\<forall>l \<in> set (loops demo_closed). l = []) \<longrightarrow>
         (\<forall>pair \<in> set (map snd (active (reg demo_closed))). client pair \<in> closed demo_closed \<and> dest pair \<in> closed demo_closed)) \<and>
      Wait (fold untrack (map fst (active (reg demo_closed))) (reg demo_closed)) None None"
    by blast
  with c(2,3) show ?thesis unfolding a by simp
qed

end
