(* ===== verification/Idle_Controller.thy ===== *)
theory Idle_Controller
  imports Go_Prelude
begin

text \<open>
  The idle timeout of a tunnel, \<^verbatim>\<open>idleController\<close> of \<^verbatim>\<open>internal/tunnel/tunnel.go\<close>, with the
  timer of \<^verbatim>\<open>time.AfterFunc\<close>: \<open>timer\<close> is the instant at which it is due, \<open>None\<close> when it is not
  running.  A due timer starts a goroutine for \<^verbatim>\<open>expire\<close>, which may wait for the mutex while
  other operations run; \<open>pending\<close> counts those goroutines.
\<close>

section \<open>Operations\<close>

record idleController =
  timer :: "time option"
  timeout :: duration
  lastTouch :: time
  stopped :: bool

definition newIdleController :: "duration \<Rightarrow> time \<Rightarrow> idleController" where
  "newIdleController d now = \<lparr>timer = Some (time_Add now d), timeout = d, lastTouch = now, stopped = False\<rparr>"

definition touch :: "time \<Rightarrow> idleController \<Rightarrow> idleController" where
  "touch now c =
     (if \<not> stopped c then c\<lparr>lastTouch := now, timer := Some (time_Add now (timeout c))\<rparr> else c)"

definition stop :: "idleController \<Rightarrow> idleController" where
  "stop c = (if \<not> stopped c then c\<lparr>stopped := True, timer := None\<rparr> else c)"

text \<open>\<open>expire\<close> also says whether it calls \<^verbatim>\<open>onTimeout\<close>.\<close>

definition expire :: "time \<Rightarrow> idleController \<Rightarrow> idleController \<times> bool" where
  "expire now c =
     (if stopped c then (c, False)
      else
        let remaining = wrap64 (timeout c - time_Sub now (lastTouch c)) in
        if 0 < remaining then (c\<lparr>timer := Some (time_Add now remaining)\<rparr>, False)
        else (c\<lparr>stopped := True\<rparr>, True))"

section \<open>Timed behaviour\<close>

datatype idle_event = Touched time | Stopped time | TimedOut time

record idle =
  ctl :: idleController
  now :: time
  pending :: nat
  trace :: "idle_event list"  \<comment> \<open>the calls so far, newest first\<close>

definition fire :: "idle \<Rightarrow> idle option" where
  "fire s = (case timer (ctl s) of
       Some d \<Rightarrow> if d \<le> now s then Some (s\<lparr>ctl := (ctl s)\<lparr>timer := None\<rparr>, pending := pending s + 1\<rparr>) else None
     | None \<Rightarrow> None)"

definition run_expire :: "idle \<Rightarrow> idle option" where
  "run_expire s =
     (if pending s = 0 then None
      else let (c, timed_out) = expire (now s) (ctl s) in
        Some (s\<lparr>ctl := c, pending := pending s - 1,
                trace := (if timed_out then TimedOut (now s) # trace s else trace s)\<rparr>))"

inductive idle_step :: "idle \<Rightarrow> idle \<Rightarrow> bool" where
  i_tick: "now s \<le> t \<Longrightarrow> idle_step s (s\<lparr>now := t\<rparr>)"
| i_fire: "fire s = Some u \<Longrightarrow> idle_step s u"
| i_expire: "run_expire s = Some u \<Longrightarrow> idle_step s u"
| i_touch: "idle_step s (s\<lparr>ctl := touch (now s) (ctl s), trace := Touched (now s) # trace s\<rparr>)"
| i_stop: "idle_step s (s\<lparr>ctl := stop (ctl s), trace := Stopped (now s) # trace s\<rparr>)"

definition idle_init :: "duration \<Rightarrow> time \<Rightarrow> idle \<Rightarrow> bool" where
  "idle_init d t s \<longleftrightarrow> s = \<lparr>ctl = newIdleController d t, now = t, pending = 0, trace = []\<rparr>"

section \<open>Invariants\<close>

text \<open>
  A trace keeps the promise when every timeout comes at least \<open>d\<close> after the start and after every
  earlier call of \<open>touch\<close>, and neither a stop nor another timeout precedes it.
\<close>

fun touched_by :: "time \<Rightarrow> idle_event \<Rightarrow> bool" where
  "touched_by b (Touched u) = (u \<le> b)"
| "touched_by b _ = False"

fun is_timeout :: "idle_event \<Rightarrow> bool" where
  "is_timeout (TimedOut t) = True"
| "is_timeout _ = False"

lemma touched_by_mono: "touched_by a e \<Longrightarrow> a \<le> b \<Longrightarrow> touched_by b e"
  by (cases e) auto

fun keeps_promise :: "duration \<Rightarrow> time \<Rightarrow> idle_event list \<Rightarrow> bool" where
  "keeps_promise d t0 [] \<longleftrightarrow> True"
| "keeps_promise d t0 (TimedOut t # tr) \<longleftrightarrow>
     t0 + d \<le> t \<and> (\<forall>e \<in> set tr. touched_by (t - d) e) \<and> keeps_promise d t0 tr"
| "keeps_promise d t0 (e # tr) \<longleftrightarrow> keeps_promise d t0 tr"

definition idle_ok :: "duration \<Rightarrow> time \<Rightarrow> idle \<Rightarrow> bool" where
  "idle_ok d t0 s \<longleftrightarrow>
     timeout (ctl s) = d \<and> t0 \<le> lastTouch (ctl s) \<and> lastTouch (ctl s) \<le> now s \<and> keeps_promise d t0 (trace s) \<and>
     (\<not> stopped (ctl s) \<longrightarrow>
        (\<forall>e \<in> set (trace s). touched_by (lastTouch (ctl s)) e) \<and>
        (0 < pending s \<or> timer (ctl s) = Some (lastTouch (ctl s) + d)))"

lemma since_remaining:
  assumes "u \<le> t" and "0 < d" and "d \<le> max_int64"
  shows "0 < wrap64 (d - time_Sub t u) \<longleftrightarrow> t < u + d"
    and "t < u + d \<Longrightarrow> wrap64 (d - time_Sub t u) = u + d - t"
proof -
  have s: "time_Sub t u = min max_int64 (t - u)"
    using assms(1) by (auto simp: time_Sub_def min_int64_def max_int64_def)
  have "int64_range (d - time_Sub t u)"
    using assms by (auto simp: s int64_range_def min_int64_def max_int64_def)
  then have w: "wrap64 (d - time_Sub t u) = d - time_Sub t u" by (rule wrap64_id)
  show "0 < wrap64 (d - time_Sub t u) \<longleftrightarrow> t < u + d" "t < u + d \<Longrightarrow> wrap64 (d - time_Sub t u) = u + d - t"
    unfolding w unfolding s using assms by (auto simp: min_def)
qed

lemma run_expire_ok:
  assumes "idle_ok d t0 s" and "run_expire s = Some u" and "0 < d" and "d \<le> max_int64"
  shows "idle_ok d t0 u"
proof -
  have ok: "timeout (ctl s) = d" "lastTouch (ctl s) \<le> now s" using assms(1) by (auto simp: idle_ok_def)
  note r = since_remaining [OF ok(2) assms(3,4)]
  show ?thesis
  proof (cases "stopped (ctl s)")
    case True
    with assms(1,2) show ?thesis
      by (auto simp: idle_ok_def run_expire_def expire_def split: if_splits)
  next
    case False
    show ?thesis
    proof (cases "now s < lastTouch (ctl s) + d")
      case True
      then have "u = s\<lparr>ctl := (ctl s)\<lparr>timer := Some (lastTouch (ctl s) + d)\<rparr>, pending := pending s - 1\<rparr>"
        using assms(2) False r by (auto simp: run_expire_def expire_def ok Let_def time_Add_def split: if_splits)
      with assms(1) False show ?thesis by (simp add: idle_ok_def)
    next
      case late: False
      then have "u = s\<lparr>ctl := (ctl s)\<lparr>stopped := True\<rparr>, pending := pending s - 1, trace := TimedOut (now s) # trace s\<rparr>"
        using assms(2) False r by (auto simp: run_expire_def expire_def ok Let_def split: if_splits)
      with assms(1) False late show ?thesis
        by (auto simp: idle_ok_def intro: touched_by_mono)
    qed
  qed
qed

lemma idle_step_ok:
  assumes "idle_ok d t0 s" and "idle_step s u" and "0 < d" and "d \<le> max_int64"
  shows "idle_ok d t0 u"
  using assms(2)
proof cases
  case (i_tick t)
  with assms(1) show ?thesis by (auto simp: idle_ok_def)
next
  case i_fire
  with assms(1) show ?thesis
    by (auto simp: idle_ok_def fire_def split: option.splits if_splits)
next
  case i_expire
  with assms show ?thesis by (simp add: run_expire_ok)
next
  case i_touch
  with assms(1) show ?thesis
    by (auto simp: idle_ok_def touch_def time_Add_def intro: touched_by_mono)
next
  case i_stop
  with assms(1) show ?thesis by (auto simp: idle_ok_def stop_def)
qed

lemma idle_init_ok: "idle_init d t s \<Longrightarrow> idle_ok d t s"
  by (simp add: idle_init_def idle_ok_def newIdleController_def time_Add_def)

definition valid_timeout :: "duration \<Rightarrow> bool" where
  "valid_timeout d \<longleftrightarrow> 0 < d \<and> d \<le> max_int64"

interpretation idle_inv: inductive_invariant
  "\<lambda>s. valid_timeout d \<and> idle_init d t s" idle_step "\<lambda>s. valid_timeout d \<and> idle_ok d t s" for d t
  by unfold_locales (auto simp: valid_timeout_def intro: idle_init_ok idle_step_ok)

lemma idle_reachable_ok:
  assumes "reachable (idle_init d t) idle_step s" and "valid_timeout d"
  shows "idle_ok d t s"
proof -
  have "reachable (\<lambda>s. valid_timeout d \<and> idle_init d t s) idle_step s"
    using assms by (induction rule: reachable.induct) (auto intro: reachable.intros)
  then show ?thesis using idle_inv.reachable_inv by blast
qed

lemma promise_once:
  assumes "keeps_promise d t0 tr"
  shows "length (filter is_timeout tr) \<le> 1"
  using assms
proof (induction d t0 tr rule: keeps_promise.induct)
  case (2 d t0 t tr)
  then have "filter is_timeout tr = []"
    by (auto simp: filter_empty_conv elim!: touched_by.elims)
  then show ?case by simp
qed auto

section \<open>Properties\<close>

text \<open>
  C27: The tunnel is closed for inactivity at most once, only when a full timeout has passed since
  its start and since every byte relayed before (every earlier \<^verbatim>\<open>touch\<close>), and never after
  \<^verbatim>\<open>stop\<close>; also when the timer fired and its callback waited for the mutex while \<^verbatim>\<open>touch\<close> or
  \<^verbatim>\<open>stop\<close> ran.
\<close>

theorem timeout_only_when_idle:
  assumes "reachable (idle_init d t) idle_step s" and "valid_timeout d"
  shows "keeps_promise d t (trace s) \<and>
         length (filter is_timeout (trace s)) \<le> 1"
  using idle_reachable_ok [OF assms] promise_once by (auto simp: idle_ok_def)

text \<open>
  C28: An idle tunnel is closed: as soon as a timeout has passed since the last activity and the
  controller is not stopped, the callback that is waiting, or else the timer's, calls
  \<^verbatim>\<open>onTimeout\<close> when it runs; no wake-up is lost to an intermediate reset.
\<close>

theorem idle_tunnel_expires:
  assumes "reachable (idle_init d t) idle_step s" and "valid_timeout d"
    and "\<not> stopped (ctl s)" and "lastTouch (ctl s) + d \<le> now s"
  shows "\<exists>u v. (if 0 < pending s then u = s else fire s = Some u) \<and> run_expire u = Some v \<and>
           stopped (ctl v) \<and> trace v = TimedOut (now s) # trace s"
proof -
  have ok: "idle_ok d t s" using idle_reachable_ok [OF assms(1,2)] .
  have expires: "\<exists>v. run_expire u = Some v \<and> stopped (ctl v) \<and> trace v = TimedOut (now s) # trace s"
    if "0 < pending u" "now u = now s" "trace u = trace s" "lastTouch (ctl u) = lastTouch (ctl s)"
      "timeout (ctl u) = d" "\<not> stopped (ctl u)" for u
  proof -
    have "\<not> 0 < wrap64 (d - time_Sub (now s) (lastTouch (ctl s)))"
      using since_remaining(1) [of "lastTouch (ctl s)" "now s" d] ok assms(2,4)
      by (auto simp: idle_ok_def valid_timeout_def)
    with that show ?thesis by (simp add: run_expire_def expire_def Let_def)
  qed
  show ?thesis
  proof (cases "0 < pending s")
    case True
    with expires [of s] ok assms(3) show ?thesis by (auto simp: idle_ok_def)
  next
    case False
    let ?u = "s\<lparr>ctl := (ctl s)\<lparr>timer := None\<rparr>, pending := pending s + 1\<rparr>"
    have "fire s = Some ?u" using False ok assms(3,4) by (simp add: idle_ok_def fire_def)
    with False expires [of ?u] ok assms(3) show ?thesis by (auto simp: idle_ok_def)
  qed
qed

text \<open>A run for the witnesses: timeout 10 from instant 100, data at 105, the timer due at 115.\<close>

definition demo_idle :: idle where
  "demo_idle = \<lparr>ctl = \<lparr>timer = Some 115, timeout = 10, lastTouch = 105, stopped = False\<rparr>, now = 115,
     pending = 0, trace = [Touched 105]\<rparr>"

lemma demo_idle_reachable: "reachable (idle_init 10 100) idle_step demo_idle"
proof -
  let ?s0 = "\<lparr>ctl = newIdleController 10 100, now = 100, pending = 0, trace = []\<rparr>"
  let ?s1 = "?s0\<lparr>now := 105\<rparr>"
  let ?s2 = "?s1\<lparr>ctl := touch (now ?s1) (ctl ?s1), trace := Touched (now ?s1) # trace ?s1\<rparr>"
  have "reachable (idle_init 10 100) idle_step ?s0" by (rule reach_init) (simp add: idle_init_def)
  then have "reachable (idle_init 10 100) idle_step ?s1" by (rule reach_step) (rule i_tick, simp)
  then have "reachable (idle_init 10 100) idle_step ?s2" by (rule reach_step) (rule i_touch)
  then have "reachable (idle_init 10 100) idle_step (?s2\<lparr>now := 115\<rparr>)" by (rule reach_step) (rule i_tick, simp)
  moreover have "?s2\<lparr>now := 115\<rparr> = demo_idle"
    by (simp add: demo_idle_def newIdleController_def touch_def time_Add_def)
  ultimately show ?thesis by simp
qed

lemma demo_timeout: "valid_timeout 10"
  by (simp add: valid_timeout_def max_int64_def)

theorem timeout_only_when_idle_witness: "keeps_promise 10 100 (trace demo_idle)"
  using timeout_only_when_idle [OF demo_idle_reachable demo_timeout] by blast

theorem idle_tunnel_expires_witness:
  "\<exists>u v. fire demo_idle = Some u \<and> run_expire u = Some v \<and> trace v = [TimedOut 115, Touched 105]"
  using idle_tunnel_expires [OF demo_idle_reachable demo_timeout] by (auto simp: demo_idle_def)

end
