(* ===== verification/Go_Bufio.thy ===== *)
theory Go_Bufio
  imports Go_Prelude
begin

text \<open>
  Readers and writers as functions on an arbitrary world \<open>'w\<close>, and the parts of \<^verbatim>\<open>bufio.Reader\<close>
  the proxy uses: \<^verbatim>\<open>Read\<close>, \<^verbatim>\<open>ReadSlice\<close> and \<^verbatim>\<open>ReadLine\<close>, with its buffer of fixed size.
  The lemmas show that reading lines depends on the bytes of the stream only, not on the chunks in
  which they arrive.
\<close>

type_synonym 'w reader = "nat \<Rightarrow> 'w \<Rightarrow> (string \<times> err option) \<times> 'w"
type_synonym 'w writer = "string \<Rightarrow> 'w \<Rightarrow> (int \<times> err option) \<times> 'w"

section \<open>Buffered readers\<close>

text \<open>A \<^verbatim>\<open>bufio.Reader\<close>: unread bytes, the error to report after them, the buffer size.\<close>

record bufio_Reader =
  buffered :: string
  buffered_err :: "err option"
  buffer_size :: nat

definition bufio_Read :: "'w reader \<Rightarrow> nat \<Rightarrow> bufio_Reader \<Rightarrow> 'w \<Rightarrow> (string \<times> err option) \<times> bufio_Reader \<times> 'w" where
  "bufio_Read read n b w =
     (if n = 0 then
        (if buffered b \<noteq> [] then (([], None), b, w) else (([], buffered_err b), b\<lparr>buffered_err := None\<rparr>, w))
      else if buffered b \<noteq> [] then ((take n (buffered b), None), b\<lparr>buffered := drop n (buffered b)\<rparr>, w)
      else case buffered_err b of
        Some e \<Rightarrow> (([], Some e), b\<lparr>buffered_err := None\<rparr>, w)
      | None \<Rightarrow>
          if buffer_size b \<le> n then
            (case read n w of ((data, e), w) \<Rightarrow> ((data, e), b, w))
          else
            (case read (buffer_size b) w of
               ((data, e), w) \<Rightarrow>
                 if data = [] then (([], e), b, w)
                 else ((take n data, None), b\<lparr>buffered := drop n data, buffered_err := e\<rparr>, w)))"

definition newline :: char where "newline = CHR 0x0A"
definition carriage_return :: char where "carriage_return = CHR 0x0D"

definition ErrBufferFull :: err where "ErrBufferFull = New ''bufio: buffer full''"
definition ErrNoProgress :: err where "ErrNoProgress = New ''multiple Read calls return no data or error''"

text \<open>\<^verbatim>\<open>fill\<close>: at most \<open>k\<close> reads into the free part of the buffer, until one yields bytes or an error.\<close>

fun fill :: "'w reader \<Rightarrow> nat \<Rightarrow> bufio_Reader \<Rightarrow> 'w \<Rightarrow> bufio_Reader \<times> 'w" where
  "fill read 0 b w = (b\<lparr>buffered_err := Some ErrNoProgress\<rparr>, w)"
| "fill read (Suc k) b w =
     (case read (buffer_size b - length (buffered b)) w of
        ((data, e), w) \<Rightarrow>
          let b = b\<lparr>buffered := buffered b @ data\<rparr> in
          if e \<noteq> None then (b\<lparr>buffered_err := e\<rparr>, w)
          else if data \<noteq> [] then (b, w)
          else fill read k b w)"

lemma fill_progress:
  assumes "fill read k b w = (b', w')" and "buffered_err b = None"
  shows "buffer_size b' = buffer_size b \<and> (\<exists>data. buffered b' = buffered b @ data \<and> (buffered_err b' = None \<longrightarrow> data \<noteq> []))"
  using assms
  by (induction read k b w rule: fill.induct) (auto simp: Let_def split: prod.splits if_splits)

text \<open>\<^verbatim>\<open>ReadSlice('\n')\<close>: the line with its newline, or what there is together with an error.\<close>

function ReadSlice :: "'w reader \<Rightarrow> bufio_Reader \<Rightarrow> 'w \<Rightarrow> (string \<times> err option) \<times> bufio_Reader \<times> 'w" where
  "ReadSlice read b w =
     (case Cut (buffered b) newline of
        Some (before, after) \<Rightarrow> ((before @ [newline], None), b\<lparr>buffered := after\<rparr>, w)
      | None \<Rightarrow>
          if buffered_err b \<noteq> None then ((buffered b, buffered_err b), b\<lparr>buffered := [], buffered_err := None\<rparr>, w)
          else if buffer_size b \<le> length (buffered b) then ((buffered b, Some ErrBufferFull), b\<lparr>buffered := []\<rparr>, w)
          else (case fill read 100 b w of (b, w) \<Rightarrow> ReadSlice read b w))"
  by pat_completeness auto

termination
proof (relation "measure (\<lambda>(read, b, w). (if buffered_err b = None then 1 else 0) + (buffer_size b - length (buffered b)))")
  fix read :: "'w reader" and b w b' w'
  assume a: "\<not> buffered_err b \<noteq> None" "\<not> buffer_size b \<le> length (buffered b)" "(b', w') = fill read 100 b w"
  then obtain data where d: "buffer_size b' = buffer_size b" "buffered b' = buffered b @ data"
    "buffered_err b' = None \<Longrightarrow> 0 < length data"
    using fill_progress [of read 100 b w b' w'] by auto
  with a(1,2) show "((read, b', w'), (read, b, w)) \<in> measure (\<lambda>(read, b, w). (if buffered_err b = None then 1 else 0) + (buffer_size b - length (buffered b)))"
    by (cases "buffered_err b' = None"; cases data) auto
qed simp

declare ReadSlice.simps [simp del]

text \<open>\<^verbatim>\<open>ReadLine\<close>: the line without its end, and whether it is only a prefix of a longer line.\<close>

definition ReadLine :: "'w reader \<Rightarrow> bufio_Reader \<Rightarrow> 'w \<Rightarrow> (err + string \<times> bool) \<times> bufio_Reader \<times> 'w" where
  "ReadLine read b w =
     (case ReadSlice read b w of
        ((line, e), b, w) \<Rightarrow>
          if e = Some ErrBufferFull then
            (if line \<noteq> [] \<and> last line = carriage_return
             then (Inr (butlast line, True), b\<lparr>buffered := carriage_return # buffered b\<rparr>, w)
             else (Inr (line, True), b, w))
          else if line = [] then (Inl (the e), b, w)
          else if last line = newline then
            (let line = butlast line in
             (Inr (if line \<noteq> [] \<and> last line = carriage_return then butlast line else line, False), b, w))
          else (Inr (line, False), b, w))"

section \<open>Streams in chunks\<close>

text \<open>A connection whose peer sent the given chunks and then closed; a read takes at most one chunk.\<close>

definition chunked :: "string list reader" where
  "chunked n cs =
     (case cs of
        [] \<Rightarrow> (([], Some EOF), [])
      | c # cs \<Rightarrow> if length c \<le> n then ((c, None), cs) else ((take n c, None), drop n c # cs))"

definition stream :: "bufio_Reader \<Rightarrow> string list \<Rightarrow> string" where
  "stream b cs = buffered b @ concat cs"

definition chunk_ok :: "bufio_Reader \<Rightarrow> string list \<Rightarrow> bool" where
  "chunk_ok b cs \<longleftrightarrow> buffered_err b = None \<and> length (buffered b) \<le> buffer_size b \<and> 2 \<le> buffer_size b \<and> [] \<notin> set cs"

lemma fill_chunked:
  assumes "chunk_ok b cs" and "length (buffered b) < buffer_size b" and "fill chunked (Suc k) b cs = (b', cs')"
  shows "if cs = [] then b' = b\<lparr>buffered_err := Some EOF\<rparr> \<and> cs' = []
         else chunk_ok b' cs' \<and> stream b' cs' = stream b cs \<and> buffer_size b' = buffer_size b"
proof (cases cs)
  case Nil
  with assms show ?thesis by (auto simp: chunked_def Let_def)
next
  case (Cons c rest)
  with assms show ?thesis
    by (auto simp: chunked_def chunk_ok_def stream_def Let_def split: if_splits)
qed

lemma Cut_take:
  assumes "Cut s x = Some (a, r)" and "length s \<le> n"
  shows "Cut (take n (s @ t)) x = Some (a, r @ take (n - length s) t)"
proof -
  have "s = a @ x # r" "x \<notin> set a" using Cut_Some [OF assms(1)] by auto
  moreover have "take n (s @ t) = s @ take (n - length s) t" using assms(2) by simp
  ultimately show ?thesis using Cut_append [of x a "r @ take (n - length s) t"] by simp
qed

lemma ReadSlice_chunked:
  assumes "chunk_ok b cs"
  shows "case ReadSlice chunked b cs of ((line, e), b', cs') \<Rightarrow>
     (case Cut (take (buffer_size b) (stream b cs)) newline of
        Some (before, _) \<Rightarrow> line = before @ [newline] \<and> e = None \<and> chunk_ok b' cs' \<and> buffer_size b' = buffer_size b \<and>
          stream b cs = line @ stream b' cs'
      | None \<Rightarrow>
          if buffer_size b \<le> length (stream b cs)
          then line = take (buffer_size b) (stream b cs) \<and> e = Some ErrBufferFull \<and> buffered b' = [] \<and>
               chunk_ok b' cs' \<and> buffer_size b' = buffer_size b \<and> stream b cs = line @ stream b' cs'
          else line = stream b cs \<and> e = Some EOF \<and> stream b' cs' = [])"
  using assms
proof (induction "chunked :: string list reader" b cs rule: ReadSlice.induct)
  case (1 b cs)
  note ok = 1(2)
  have len: "length (buffered b) \<le> buffer_size b" and noerr: "buffered_err b = None" using ok by (auto simp: chunk_ok_def)
  show ?case
  proof (cases "Cut (buffered b) newline")
    case (Some p)
    obtain before after where p: "p = (before, after)" by (cases p)
    have s: "buffered b = before @ newline # after" using Cut_Some Some p by blast
    have "Cut (take (buffer_size b) (stream b cs)) newline =
        Some (before, after @ take (buffer_size b - length (buffered b)) (concat cs))"
      unfolding stream_def using Cut_take [OF Some [unfolded p] len] .
    then show ?thesis
      using ok Some p by (subst ReadSlice.simps) (auto simp: s stream_def chunk_ok_def)
  next
    case None
    show ?thesis
    proof (cases "buffer_size b \<le> length (buffered b)")
      case True
      then have "take (buffer_size b) (stream b cs) = buffered b" using len by (simp add: stream_def)
      with True None ok noerr show ?thesis
        by (subst ReadSlice.simps) (auto simp: stream_def chunk_ok_def)
    next
      case False
      obtain b1 cs1 where f: "fill chunked 100 b cs = (b1, cs1)" by fastforce
      have unfold: "ReadSlice chunked b cs = ReadSlice chunked b1 cs1"
        using None noerr False f by (subst ReadSlice.simps) simp
      have g: "if cs = [] then b1 = b\<lparr>buffered_err := Some EOF\<rparr> \<and> cs1 = []
         else chunk_ok b1 cs1 \<and> stream b1 cs1 = stream b cs \<and> buffer_size b1 = buffer_size b"
        using fill_chunked [OF ok, of 99 b1 cs1] False f by (simp add: numeral_eq_Suc)
      show ?thesis
      proof (cases "cs = []")
        case True
        with g None False show ?thesis
          unfolding unfold by (subst ReadSlice.simps) (auto simp: stream_def)
      next
        case False
        with g have ok1: "chunk_ok b1 cs1" "stream b1 cs1 = stream b cs" "buffer_size b1 = buffer_size b" by auto
        have "\<not> buffered_err b \<noteq> None" using noerr by simp
        note IH = 1(1) [OF None this \<open>\<not> buffer_size b \<le> length (buffered b)\<close> f [symmetric] ok1(1)]
        show ?thesis unfolding unfold using IH unfolding ok1(2,3) .
      qed
    qed
  qed
qed

end
