(* ===== verification/Tunnel_Relay.thy ===== *)
theory Tunnel_Relay
  imports Idle_Controller Go_Bufio "HOL-Library.Sublist"
begin

text \<open>
  Copying between the two sides of a tunnel, the second half of \<^verbatim>\<open>internal/tunnel/tunnel.go\<close>:
  the readers and writers wrapped around the connections, one direction of the copy with its
  half-close, and the goroutine that joins the two directions.

  Readers and writers are functions on an arbitrary world \<open>'w\<close>: \<open>read n w\<close> is what a \<^verbatim>\<open>Read\<close>
  into a buffer of \<open>n\<close> bytes returned and the world after it, \<open>write data w\<close> what a \<^verbatim>\<open>Write\<close>
  returned.  A copy need not end, so it is a partial function.  \<^verbatim>\<open>io.CopyBuffer\<close> is modelled by
  its read-write loop; the \<^verbatim>\<open>ReadFrom\<close> of a TCP connection, which it may call instead, moves the
  same bytes.  Debug logging is left out.
\<close>

section \<open>Wrapped readers and writers\<close>

record 'c BufferedConn =
  bc_Conn :: 'c
  bc_reader :: bufio_Reader

definition NewBufferedConn :: "'c \<Rightarrow> bufio_Reader \<Rightarrow> 'c BufferedConn" where
  "NewBufferedConn conn reader = \<lparr>bc_Conn = conn, bc_reader = reader\<rparr>"

definition BufferedConn_Read ::
  "'w reader \<Rightarrow> nat \<Rightarrow> 'c BufferedConn \<Rightarrow> 'w \<Rightarrow> (string \<times> err option) \<times> 'c BufferedConn \<times> 'w" where
  "BufferedConn_Read read n c w =
     (case bufio_Read read n (bc_reader c) w of (r, b, w) \<Rightarrow> (r, c\<lparr>bc_reader := b\<rparr>, w))"

text \<open>\<open>close_write\<close> is \<open>None\<close> when the wrapped connection has no \<^verbatim>\<open>CloseWrite\<close>.\<close>

definition BufferedConn_CloseWrite :: "('w \<Rightarrow> err option \<times> 'w) option \<Rightarrow> 'w \<Rightarrow> err option \<times> 'w" where
  "BufferedConn_CloseWrite close_write w = (case close_write of Some f \<Rightarrow> f w | None \<Rightarrow> (None, w))"

definition flushingWriter_Write :: "'w writer \<Rightarrow> ('w \<Rightarrow> err option \<times> 'w) option \<Rightarrow> 'w writer" where
  "flushingWriter_Write write flush buffer w =
     (case write buffer w of
        ((written, e), w) \<Rightarrow>
          if e \<noteq> None \<or> written = 0 \<or> flush = None then ((written, e), w)
          else (case the flush w of
                  (Some flushErr, w) \<Rightarrow> ((written, Some flushErr), w)
                | (None, w) \<Rightarrow> ((written, None), w)))"

definition activityReader_Read :: "'w reader \<Rightarrow> ('w \<Rightarrow> 'w) \<Rightarrow> 'w reader" where
  "activityReader_Read read on_data n w =
     (case read n w of ((data, e), w) \<Rightarrow> ((data, e), if data \<noteq> [] then on_data w else w))"

section \<open>One direction\<close>

definition errInvalidWrite :: err where
  "errInvalidWrite = New ''invalid write result''"

text \<open>
  One round of the loop of \<^verbatim>\<open>io.CopyBuffer\<close>: the bytes written so far, and \<open>Some e\<close> when the
  loop ends with error \<open>e\<close>.
\<close>

definition copy_round ::
  "'w reader \<Rightarrow> 'w writer \<Rightarrow> nat \<Rightarrow> int \<Rightarrow> 'w \<Rightarrow> (int \<times> err option option) \<times> 'w" where
  "copy_round read write bufsize written w =
     (case read bufsize w of
        ((data, er), w) \<Rightarrow>
          let ended = (case er of None \<Rightarrow> None | Some e \<Rightarrow> Some (if e = EOF then None else Some e)) in
          if data = [] then ((written, ended), w)
          else case write data w of
            ((nw, ew), w) \<Rightarrow>
              let invalid = (nw < 0 \<or> int (length data) < nw);
                  ew = (if invalid \<and> ew = None then Some errInvalidWrite else ew);
                  nw = (if invalid then 0 else nw);
                  written = written + nw
              in
              if ew \<noteq> None then ((written, Some ew), w)
              else if nw \<noteq> int (length data) then ((written, Some (Some ErrShortWrite)), w)
              else ((written, ended), w))"

partial_function (option) copyBuffer ::
  "'w reader \<Rightarrow> 'w writer \<Rightarrow> nat \<Rightarrow> int \<Rightarrow> 'w \<Rightarrow> ((int \<times> err option) \<times> 'w) option" where
  "copyBuffer read write bufsize written w =
     (case copy_round read write bufsize written w of
        ((written, ended), w) \<Rightarrow>
          (case ended of
             Some e \<Rightarrow> Some ((written, e), w)
           | None \<Rightarrow> copyBuffer read write bufsize written w))"

definition transfer :: "'w writer \<Rightarrow> 'w reader \<Rightarrow> 'w \<Rightarrow> ((int \<times> err option) \<times> 'w) option" where
  "transfer destination source w = copyBuffer source destination (32 * 1024) 0 w"

text \<open>The result is what is sent on the channel \<^verbatim>\<open>results\<close>.\<close>

definition copyAndHalfClose ::
  "'w writer \<Rightarrow> ('w \<Rightarrow> err option \<times> 'w) option \<Rightarrow> 'w reader \<Rightarrow> 'w \<Rightarrow> (err option \<times> 'w) option" where
  "copyAndHalfClose destination close_write source w =
     (case transfer destination source w of
        None \<Rightarrow> None
      | Some ((written, e), w) \<Rightarrow>
          if e = None then
            (case close_write of
               None \<Rightarrow> Some (None, w)
             | Some f \<Rightarrow>
                 (case f w of
                    (Some closeErr, w) \<Rightarrow> Some (if errors_Is closeErr ErrNetClosed then None else Some closeErr, w)
                  | (None, w) \<Rightarrow> Some (None, w)))
          else Some (e, w))"

section \<open>Joining the two directions\<close>

text \<open>
  \<^verbatim>\<open>Relay\<close> and \<^verbatim>\<open>RelayStream\<close>: two goroutines copy, one per direction, and send their result on
  a channel with room for two; the caller receives one, interrupts both sides if it is an error,
  receives the other and returns, stopping the idle controller; an idle timeout closes both sides.

  The copies run against peers that may stall: \<open>stuck s d\<close> is the end of the tunnel at which the copy
  \<open>d\<close> is blocked, if any.  A blocked copy goes on only when its peer does or after a call that
  interrupts that end: closing a connection, or setting its deadline to the present, ends the reads
  and writes blocked on it.  In \<^verbatim>\<open>Relay\<close> the client source reads from the connection
  \<^verbatim>\<open>clientWriter\<close>; in \<^verbatim>\<open>RelayStream\<close> the two are the body and the response of an HTTP/2 request,
  and closing the body ends its reads only.
\<close>

datatype relay_fn = Relay | RelayStream

datatype direction = Upload | Download  \<comment> \<open>client to destination, destination to client\<close>

datatype endpoint = ClientSource | ClientWriter | Destination

datatype relay_call = SetDeadline endpoint | Close endpoint

datatype copier = Copying | Sending "err option" | Done

datatype relay_phase = WaitFirst | WaitSecond | Returned

record relay =
  copier :: "direction \<Rightarrow> copier"
  stuck :: "direction \<Rightarrow> endpoint option"
  results :: "err option list"         \<comment> \<open>the channel's buffer, oldest first\<close>
  received :: "err option list"
  relay_calls :: "relay_call list"     \<comment> \<open>the calls on the two sides so far\<close>
  phase :: relay_phase
  idle_ctl :: idleController
  firing :: bool                       \<comment> \<open>\<^verbatim>\<open>expire\<close> is about to call \<^verbatim>\<open>onTimeout\<close>\<close>
  timed_out :: bool                    \<comment> \<open>\<^verbatim>\<open>onTimeout\<close> was called\<close>

definition results_capacity :: nat where
  "results_capacity = 2"

fun interrupt_calls :: "relay_fn \<Rightarrow> relay_call list" where
  "interrupt_calls Relay = [SetDeadline ClientWriter, SetDeadline Destination]"
| "interrupt_calls RelayStream = [Close ClientSource, Close Destination]"

fun timeout_calls :: "relay_fn \<Rightarrow> relay_call list" where
  "timeout_calls Relay = [Close ClientWriter, Close Destination]"
| "timeout_calls RelayStream = [Close ClientSource, Close Destination]"

fun call_end :: "relay_call \<Rightarrow> endpoint" where
  "call_end (SetDeadline p) = p"
| "call_end (Close p) = p"

definition interrupts :: "relay_fn \<Rightarrow> relay_call \<Rightarrow> endpoint \<Rightarrow> bool" where
  "interrupts f c p \<longleftrightarrow> p = call_end c \<or> f = Relay \<and> call_end c = ClientWriter \<and> p = ClientSource"

fun ends_of :: "direction \<Rightarrow> endpoint list" where
  "ends_of Upload = [ClientSource, Destination]"
| "ends_of Download = [Destination, ClientWriter]"

definition may_end :: "relay_fn \<Rightarrow> relay \<Rightarrow> direction \<Rightarrow> bool" where
  "may_end f s d \<longleftrightarrow> (case stuck s d of None \<Rightarrow> True | Some p \<Rightarrow> list_ex (\<lambda>c. interrupts f c p) (relay_calls s))"

definition relay_start :: "duration \<Rightarrow> time \<Rightarrow> relay \<Rightarrow> bool" where
  "relay_start d t s \<longleftrightarrow>
     s = \<lparr>copier = (\<lambda>_. Copying), stuck = (\<lambda>_. None), results = [], received = [], relay_calls = [], phase = WaitFirst,
          idle_ctl = newIdleController d t, firing = False, timed_out = False\<rparr>"

inductive relay_step :: "relay_fn \<Rightarrow> relay \<Rightarrow> relay \<Rightarrow> bool" for f where
  r_copied: "copier s d = Copying \<Longrightarrow> may_end f s d \<Longrightarrow>
     relay_step f s (s\<lparr>copier := (copier s)(d := Sending e)\<rparr>)"
| r_send: "copier s d = Sending e \<Longrightarrow> length (results s) < results_capacity \<Longrightarrow>
     relay_step f s (s\<lparr>copier := (copier s)(d := Done), results := results s @ [e]\<rparr>)"
| r_first: "phase s = WaitFirst \<Longrightarrow> results s = e # rest \<Longrightarrow>
     relay_step f s (s\<lparr>results := rest, received := received s @ [e],
       relay_calls := relay_calls s @ (if e \<noteq> None then interrupt_calls f else []), phase := WaitSecond\<rparr>)"
| r_second: "phase s = WaitSecond \<Longrightarrow> results s = e # rest \<Longrightarrow>
     relay_step f s (s\<lparr>results := rest, received := received s @ [e], phase := Returned, idle_ctl := stop (idle_ctl s)\<rparr>)"
| r_touch: "copier s d = Copying \<Longrightarrow> relay_step f s (s\<lparr>idle_ctl := touch t (idle_ctl s)\<rparr>)"
| r_expire: "expire t (idle_ctl s) = (c, out) \<Longrightarrow>
     relay_step f s (s\<lparr>idle_ctl := c, firing := (firing s \<or> out)\<rparr>)"
| r_timeout: "firing s \<Longrightarrow>
     relay_step f s (s\<lparr>relay_calls := relay_calls s @ timeout_calls f, firing := False, timed_out := True\<rparr>)"

text \<open>A run of the relay interleaves its steps with those of the peers, which stall and resume at will.\<close>

inductive relay_run :: "relay_fn \<Rightarrow> relay \<Rightarrow> relay \<Rightarrow> bool" for f where
  relay_own: "relay_step f s u \<Longrightarrow> relay_run f s u"
| relay_peer: "p \<in> set (None # map Some (ends_of d)) \<Longrightarrow> relay_run f s (s\<lparr>stuck := (stuck s)(d := p)\<rparr>)"

section \<open>Faithful copying\<close>

text \<open>Readers and writers that record the bytes read, the errors of the reads and the bytes delivered.\<close>

datatype copy_event = Ended err | Delivered string | HalfClosed

definition logged_read :: "'w reader \<Rightarrow> ('w \<times> string \<times> copy_event list) reader" where
  "logged_read read n = (\<lambda>(w, i, evs). case read n w of ((data, e), w) \<Rightarrow>
     ((data, e), (w, i @ data, evs @ (case e of None \<Rightarrow> [] | Some e \<Rightarrow> [Ended e]))))"

definition logged_write :: "'w writer \<Rightarrow> ('w \<times> string \<times> copy_event list) writer" where
  "logged_write write data = (\<lambda>(w, i, evs).
     case write data w of ((nw, ew), w) \<Rightarrow> ((nw, ew), (w, i, evs @ [Delivered (take (nat nw) data)])))"

definition logged_close :: "('w \<Rightarrow> err option \<times> 'w) \<Rightarrow> 'w \<times> string \<times> copy_event list \<Rightarrow> err option \<times> ('w \<times> string \<times> copy_event list)" where
  "logged_close f = (\<lambda>(w, i, evs). case f w of (e, w) \<Rightarrow> (e, (w, i, evs @ [HalfClosed])))"

fun delivered :: "copy_event list \<Rightarrow> string" where
  "delivered [] = []"
| "delivered (Delivered d # evs) = d @ delivered evs"
| "delivered (Ended e # evs) = delivered evs"
| "delivered (HalfClosed # evs) = delivered evs"

lemma delivered_append [simp]: "delivered (a @ b) = delivered a @ delivered b"
  by (induction a rule: delivered.induct) auto

definition sane_writer :: "'w writer \<Rightarrow> bool" where
  "sane_writer write \<longleftrightarrow> (\<forall>data w. case write data w of ((nw, ew), w) \<Rightarrow> 0 \<le> nw \<and> nw \<le> int (length data))"

text \<open>What a copy that started at a faithful point leaves behind.\<close>

definition faithful :: "(int \<times> err option) \<times> ('w \<times> string \<times> copy_event list) \<Rightarrow> bool" where
  "faithful r = (case r of ((n, e), (w, i, evs)) \<Rightarrow>
     prefix (delivered evs) i \<and> n = int (length (delivered evs)) \<and> HalfClosed \<notin> set evs \<and>
     (e = None \<longrightarrow> delivered evs = i \<and> Ended EOF \<in> set evs))"

definition in_step :: "int \<Rightarrow> 'w \<times> string \<times> copy_event list \<Rightarrow> bool" where
  "in_step n s = (case s of (w, i, evs) \<Rightarrow> delivered evs = i \<and> n = int (length i) \<and> HalfClosed \<notin> set evs)"

lemma copy_round_logged:
  assumes "copy_round (logged_read read) (logged_write write) bufsize n s = ((n', ended), s')"
    and "sane_writer write" and "in_step n s"
  shows "case ended of None \<Rightarrow> in_step n' s' | Some e \<Rightarrow> faithful ((n', e), s')"
proof -
  obtain w evs where s: "s = (w, delivered evs, evs)" "n = int (length (delivered evs))" "HalfClosed \<notin> set evs"
    using assms(3) by (cases s) (auto simp: in_step_def)
  obtain data er v where r: "read bufsize w = ((data, er), v)" by (metis surj_pair)
  show ?thesis
  proof (cases "data = []")
    case True
    with assms(1) r s show ?thesis
      by (auto simp: copy_round_def logged_read_def in_step_def faithful_def split: option.splits if_splits)
  next
    case False
    obtain nw ew u where wr: "write data v = ((nw, ew), u)" by (metis surj_pair)
    have sane: "0 \<le> nw" "nw \<le> int (length data)" using assms(2) wr by (auto simp: sane_writer_def dest!: spec [of _ data] spec [of _ v])
    have len: "int (length (take (nat nw) data)) = nw" using sane by simp
    have t: "take (nat nw) data = data" if "nw = int (length data)" using that by simp
    show ?thesis
      using assms(1) r s wr False sane len t
      by (auto simp: copy_round_def logged_read_def logged_write_def in_step_def faithful_def Let_def take_is_prefix
          split: option.splits if_splits)
  qed
qed

lemma copyBuffer_logged:
  assumes "copyBuffer (logged_read read) (logged_write write) bufsize n s = Some r"
    and "sane_writer write" and "in_step n s"
  shows "faithful r"
proof -
  let ?P = "\<lambda>rd wr (bufsize :: nat) n s r. rd = logged_read read \<longrightarrow> wr = logged_write write \<longrightarrow> in_step n s \<longrightarrow> faithful r"
  have "?P (logged_read read) (logged_write write) bufsize n s r"
  proof (rule copyBuffer.raw_induct [where P = ?P, OF _ assms(1)], intro impI)
    fix cb rd wr bufsize n s r
    assume IH: "\<And>rd wr bufsize n s r. cb rd wr bufsize n s = Some r \<Longrightarrow> ?P rd wr bufsize n s r"
      and body: "(case copy_round rd wr bufsize n s of
          ((written, ended), w) \<Rightarrow> (case ended of None \<Rightarrow> cb rd wr bufsize written w | Some e \<Rightarrow> Some ((written, e), w))) = Some r"
      and eqs: "rd = logged_read read" "wr = logged_write write" "in_step n s"
    obtain n' ended s' where c: "copy_round rd wr bufsize n s = ((n', ended), s')" by (metis surj_pair)
    note out = copy_round_logged [OF c [unfolded eqs(1,2)] assms(2) eqs(3)]
    show "faithful r"
      using IH [of rd wr bufsize n' s' r] body eqs c out by (cases ended) auto
  qed
  with assms(3) show ?thesis by blast
qed

text \<open>A source given as the list of its read results, and a sink that takes everything.\<close>

definition scripted :: "((string \<times> err option) list \<times> string) reader" where
  "scripted n = (\<lambda>(script, out). case script of [] \<Rightarrow> (([], Some EOF), ([], out)) | o1 # rest \<Rightarrow> (o1, (rest, out)))"

definition accepting :: "('s \<times> string) writer" where
  "accepting data = (\<lambda>(s, out). ((int (length data), None), (s, out @ data)))"

text \<open>What the script amounts to: the bytes up to its first error, and that error unless it is the end.\<close>

fun script_outcome :: "(string \<times> err option) list \<Rightarrow> string \<times> err option \<times> (string \<times> err option) list" where
  "script_outcome [] = ([], None, [])"
| "script_outcome ((data, Some e) # rest) = (data, if e = EOF then None else Some e, rest)"
| "script_outcome ((data, None) # rest) = (case script_outcome rest of (d, e, r) \<Rightarrow> (data @ d, e, r))"

lemma copyBuffer_scripted:
  "copyBuffer scripted accepting bufsize n (script, out) =
     (case script_outcome script of (d, e, rest) \<Rightarrow> Some ((n + int (length d), e), (rest, out @ d)))"
proof (induction script arbitrary: n out rule: script_outcome.induct)
  case 1
  show ?case by (subst copyBuffer.simps) (simp add: copy_round_def scripted_def)
next
  case (2 data e rest)
  show ?case by (subst copyBuffer.simps) (simp add: copy_round_def scripted_def accepting_def Let_def)
next
  case (3 data rest)
  show ?case
    by (subst copyBuffer.simps) (simp add: copy_round_def scripted_def accepting_def Let_def 3 split: prod.splits)
qed

section \<open>The join\<close>

definition first_failed :: "relay \<Rightarrow> bool" where
  "first_failed s \<longleftrightarrow> (\<exists>e rest. received s = Some e # rest)"

definition sent :: "relay \<Rightarrow> direction \<Rightarrow> nat" where
  "sent s d = (if copier s d = Done then 1 else 0)"

definition relay_ok :: "relay_fn \<Rightarrow> relay \<Rightarrow> bool" where
  "relay_ok f s \<longleftrightarrow>
     sent s Upload + sent s Download = length (results s) + length (received s) \<and>
     length (received s) = (case phase s of WaitFirst \<Rightarrow> 0 | WaitSecond \<Rightarrow> 1 | Returned \<Rightarrow> 2) \<and>
     (phase s = Returned \<longrightarrow> stopped (idle_ctl s)) \<and> (firing s \<or> timed_out s \<longrightarrow> stopped (idle_ctl s)) \<and>
     \<not> (firing s \<and> timed_out s) \<and> (\<forall>d p. stuck s d = Some p \<longrightarrow> p \<in> set (ends_of d)) \<and>
     (\<exists>i t. i = (if first_failed s then interrupt_calls f else []) \<and> t = (if timed_out s then timeout_calls f else []) \<and>
        (relay_calls s = i @ t \<or> relay_calls s = t @ i))"

lemma touch_stopped [simp]: "stopped (touch t c) = stopped c"
  by (simp add: touch_def)

lemma stop_stopped [simp]: "stopped (stop c)"
  by (simp add: stop_def)

lemma expire_effect: "expire t c = (c', out) \<Longrightarrow> (stopped c' \<longleftrightarrow> stopped c \<or> out) \<and> (out \<longrightarrow> \<not> stopped c)"
  by (auto simp: expire_def Let_def split: if_splits)

lemma relay_step_ok:
  assumes "relay_ok f s" and "relay_step f s u"
  shows "relay_ok f u"
  using assms(2)
proof cases
  case (r_copied d e)
  with assms(1) show ?thesis by (cases d) (simp_all add: relay_ok_def first_failed_def sent_def)
next
  case (r_send d e)
  with assms(1) show ?thesis by (cases d) (simp_all add: relay_ok_def first_failed_def sent_def)
next
  case (r_first e rest)
  with assms(1) show ?thesis by (cases e) (auto simp: relay_ok_def first_failed_def sent_def)
next
  case (r_second e rest)
  then obtain g where "received s = [g]" using assms(1) by (auto simp: relay_ok_def length_Suc_conv)
  with r_second assms(1) show ?thesis by (auto simp: relay_ok_def first_failed_def sent_def)
next
  case (r_expire t c out)
  with assms(1) expire_effect [OF r_expire(2)] show ?thesis
    by (auto simp: relay_ok_def first_failed_def sent_def)
next
  case r_timeout
  with assms(1) show ?thesis by (auto simp: relay_ok_def first_failed_def sent_def)
next
  case (r_touch d t)
  with assms(1) show ?thesis by (simp add: relay_ok_def first_failed_def sent_def)
qed

lemma relay_run_ok: "relay_run f s u \<Longrightarrow> relay_ok f s \<Longrightarrow> relay_ok f u"
proof (induction rule: relay_run.induct)
  case (relay_peer p d s)
  then show ?case by (auto simp: relay_ok_def first_failed_def sent_def)
qed (rule relay_step_ok)

interpretation rel: inductive_invariant "relay_start d t" "relay_run f" "relay_ok f" for d t f
proof
  show "relay_start d t s \<Longrightarrow> relay_ok f s" for s
    by (simp add: relay_start_def relay_ok_def first_failed_def sent_def)
qed (rule relay_run_ok)

text \<open>While no copy is blocked, some step leads closer to the return.\<close>

definition released :: "relay_fn \<Rightarrow> relay \<Rightarrow> bool" where
  "released f s \<longleftrightarrow> (\<forall>d. copier s d = Copying \<longrightarrow> may_end f s d)"

fun copier_left :: "copier \<Rightarrow> nat" where
  "copier_left Copying = 2"
| "copier_left (Sending e) = 1"
| "copier_left Done = 0"

definition work_left :: "relay \<Rightarrow> nat" where
  "work_left s = copier_left (copier s Upload) + copier_left (copier s Download) +
     (case phase s of WaitFirst \<Rightarrow> 2 | WaitSecond \<Rightarrow> 1 | Returned \<Rightarrow> 0)"

lemma interrupted_released:
  assumes "relay_ok f s" and "first_failed s \<or> timed_out s"
    and "f = RelayStream \<Longrightarrow> copier s Download = Copying \<Longrightarrow> stuck s Download \<noteq> Some ClientWriter"
  shows "released f s"
  unfolding released_def
proof (intro allI impI)
  fix d assume c: "copier s d = Copying"
  have calls: "set (interrupt_calls f) \<subseteq> set (relay_calls s) \<or> set (timeout_calls f) \<subseteq> set (relay_calls s)"
    using assms(1,2) by (auto simp: relay_ok_def split: if_splits)
  have "stuck s d = Some p \<Longrightarrow> p \<in> set (ends_of d)" for p using assms(1) by (simp add: relay_ok_def)
  with calls assms(3) c show "may_end f s d"
    by (cases f; cases d) (force simp: may_end_def interrupts_def list_ex_iff split: option.splits)+
qed

lemma may_end_copier [simp]: "may_end f (s\<lparr>copier := c\<rparr>) d = may_end f s d"
  by (simp add: may_end_def cong: option.case_cong)

lemma relay_progress:
  assumes "relay_ok f s" and "released f s" and "phase s \<noteq> Returned"
  shows "\<exists>u. relay_step f s u \<and> released f u \<and> work_left u < work_left s"
proof (cases "\<exists>d. copier s d = Copying")
  case True
  then obtain d where d: "copier s d = Copying" by blast
  with assms(2) have "relay_step f s (s\<lparr>copier := (copier s)(d := Sending None)\<rparr>)"
    by (intro r_copied) (auto simp: released_def)
  moreover have "released f (s\<lparr>copier := (copier s)(d := Sending None)\<rparr>)"
    using assms(2) by (simp add: released_def)
  moreover have "work_left (s\<lparr>copier := (copier s)(d := Sending None)\<rparr>) < work_left s"
    using d by (cases d) (simp_all add: work_left_def)
  ultimately show ?thesis by blast
next
  case ended: False
  then have rel: "released f u" if "\<And>d. copier u d = copier s d \<or> copier u d = Done" for u
    unfolding released_def by (metis copier.distinct(3) that)
  show ?thesis
  proof (cases "\<exists>d e. copier s d = Sending e")
    case True
    then obtain d e where d: "copier s d = Sending e" by blast
    then have "sent s d = 0" by (simp add: sent_def)
    then have "length (results s) < results_capacity"
      using assms(1) by (cases d) (auto simp: relay_ok_def results_capacity_def sent_def split: if_splits)
    note step = r_send [where f = f, OF d this]
    moreover have "work_left (s\<lparr>copier := (copier s)(d := Done), results := results s @ [e]\<rparr>) < work_left s"
      using d by (cases d) (simp_all add: work_left_def)
    moreover have "released f (s\<lparr>copier := (copier s)(d := Done), results := results s @ [e]\<rparr>)" by (rule rel) simp
    ultimately show ?thesis by blast
  next
    case False
    have "copier s d = Done" for d using ended False by (cases "copier s d") auto
    then have len: "length (results s) + length (received s) = 2" using assms(1) by (simp add: relay_ok_def sent_def)
    show ?thesis
    proof (cases "phase s")
      case WaitFirst
      with assms(1) len obtain e rest where "results s = e # rest" by (cases "results s") (auto simp: relay_ok_def)
      note step = r_first [where f = f, OF WaitFirst this]
      show ?thesis by (intro exI conjI, rule step, rule rel) (simp_all add: work_left_def WaitFirst)
    next
      case WaitSecond
      with assms(1) len obtain e rest where "results s = e # rest" by (cases "results s") (auto simp: relay_ok_def)
      note step = r_second [where f = f, OF WaitSecond this]
      show ?thesis by (intro exI conjI, rule step, rule rel) (simp_all add: work_left_def WaitSecond)
    qed (use assms(3) in simp)
  qed
qed

lemma released_returns:
  assumes "relay_ok f s" and "released f s"
  shows "\<exists>u. (relay_step f)\<^sup>*\<^sup>* s u \<and> phase u = Returned"
  using assms
proof (induction "work_left s" arbitrary: s rule: less_induct)
  case less
  show ?case
  proof (cases "phase s = Returned")
    case False
    with relay_progress [OF less.prems] obtain v where v: "relay_step f s v" "released f v" "work_left v < work_left s" by blast
    from less.hyps [OF v(3) relay_step_ok [OF less.prems(1) v(1)] v(2)] v(1) show ?thesis
      by (meson converse_rtranclp_into_rtranclp)
  qed blast
qed

section \<open>Properties\<close>

text \<open>
  C26: One direction of a tunnel delivers a prefix of the bytes it read, in order and without
  duplication; it half-closes the destination only after a read reported the end of the source and
  every byte read was delivered, as its last action; and it reports success only if it did so, so a
  stream is never cut short by a half-close or reported complete before its end.
\<close>

theorem relay_direction_faithful:
  assumes "copyAndHalfClose (logged_write write) (Some (logged_close close_write)) (logged_read read) (w, [], []) =
             Some (e, (w', i, evs))"
    and "sane_writer write"
  shows "prefix (delivered evs) i \<and>
         (HalfClosed \<in> set evs \<longrightarrow> (\<exists>ds. evs = ds @ [HalfClosed] \<and> HalfClosed \<notin> set ds \<and> Ended EOF \<in> set ds) \<and> delivered evs = i) \<and>
         (e = None \<longrightarrow> HalfClosed \<in> set evs)"
proof -
  obtain n q v j ds where t: "copyBuffer (logged_read read) (logged_write write) (32 * 1024) 0 (w, [], []) =
      Some ((n, q), (v, j, ds))"
    using assms(1) by (auto simp: copyAndHalfClose_def transfer_def split: option.splits prod.splits)
  have f: "faithful ((n, q), (v, j, ds))"
    by (rule copyBuffer_logged [OF t assms(2)]) (simp add: in_step_def)
  obtain c x where x: "close_write v = (c, x)" by (metis surj_pair)
  show ?thesis
    using assms(1) f t x
    by (cases q; cases c) (auto simp: copyAndHalfClose_def transfer_def logged_close_def faithful_def)
qed

definition demo_source :: "(string \<times> err option) list" where
  "demo_source = [(''GET '', None), ('''', None), (''/'', Some EOF)]"

theorem relay_direction_faithful_witness:
  "\<exists>e w' i evs.
     copyAndHalfClose (logged_write accepting) (Some (logged_close (\<lambda>w. (None, w)))) (logged_read scripted)
       ((demo_source, []), [], []) = Some (e, (w', i, evs)) \<and> e = None \<and> i = ''GET /'' \<and> delivered evs = i \<and> Ended EOF \<in> set evs"
proof -
  have sane: "sane_writer (accepting :: ((string \<times> err option) list \<times> string) writer)"
    by (auto simp: sane_writer_def accepting_def)
  have run: "copyAndHalfClose (logged_write accepting) (Some (logged_close (\<lambda>w. (None, w)))) (logged_read scripted)
       ((demo_source, []), [], []) =
       Some (None, (([], ''GET /''), ''GET /'', [Delivered ''GET '', Ended EOF, Delivered ''/'', HalfClosed]))"
    unfolding copyAndHalfClose_def transfer_def demo_source_def
    by (subst copyBuffer.simps, simp add: copy_round_def logged_read_def logged_write_def scripted_def accepting_def)+
       (simp add: logged_close_def)
  from relay_direction_faithful [OF run sane] run show ?thesis by auto
qed

text \<open>
  For a source that yields any finite list of read results and a sink that accepts its input,
  the copy returns, having delivered exactly the bytes up to the first error (or the end), and
  reports that error, or none at the end.
\<close>

theorem transfer_returns:
  "transfer accepting scripted (script, out) =
     (case script_outcome script of (d, e, rest) \<Rightarrow> Some ((int (length d), e), (rest, out @ d)))"
  by (simp add: transfer_def copyBuffer_scripted)

text \<open>
  C39: Joining the directions, whatever the peers do: a goroutine with a result can always send it;
  the calls on the two sides are those of an error received first and those of an idle timeout, each
  made at most once; the relay returns only after both directions have sent their results, with the
  idle controller stopped; and it can go on to return by its own steps once no copy is blocked by
  its peer, and also, blocked or not, once the first result was an error or the idle timeout closed
  the tunnel (in \<^verbatim>\<open>RelayStream\<close>, unless the copy to the client is blocked in a write, which closing
  the request body does not end).
\<close>

theorem relay_joins:
  assumes "reachable (relay_start d t) (relay_run f) s"
  shows "(\<forall>dir e. copier s dir = Sending e \<longrightarrow>
            relay_step f s (s\<lparr>copier := (copier s)(dir := Done), results := results s @ [e]\<rparr>)) \<and>
         (\<exists>i t. i = (if first_failed s then interrupt_calls f else []) \<and> t = (if timed_out s then timeout_calls f else []) \<and>
            (relay_calls s = i @ t \<or> relay_calls s = t @ i)) \<and>
         (phase s = Returned \<longrightarrow>
            (\<forall>dir. copier s dir = Done) \<and> results s = [] \<and> length (received s) = 2 \<and> stopped (idle_ctl s)) \<and>
         ((\<forall>dir. copier s dir = Copying \<longrightarrow> stuck s dir = None) \<or>
          (first_failed s \<or> timed_out s) \<and> (f = Relay \<or> stuck s Download \<noteq> Some ClientWriter) \<longrightarrow>
            (\<exists>u. (relay_step f)\<^sup>*\<^sup>* s u \<and> phase u = Returned))"
proof -
  have ok: "relay_ok f s" using rel.reachable_inv [OF assms] .
  have "length (results s) < results_capacity" if "copier s dir = Sending e" for dir e
    using ok that by (cases dir) (auto simp: relay_ok_def results_capacity_def sent_def split: if_splits)
  then have send: "copier s dir = Sending e \<Longrightarrow>
      relay_step f s (s\<lparr>copier := (copier s)(dir := Done), results := results s @ [e]\<rparr>)" for dir e
    by (intro r_send)
  have returned: "(\<forall>dir. copier s dir = Done) \<and> results s = [] \<and> length (received s) = 2 \<and> stopped (idle_ctl s)"
    if "phase s = Returned"
  proof -
    have "sent s Upload = 1 \<and> sent s Download = 1 \<and> results s = []"
      using ok that by (auto simp: relay_ok_def sent_def split: if_splits)
    moreover have "copier s dir = Done" if "sent s Upload = 1 \<and> sent s Download = 1" for dir
      using that by (cases dir) (auto simp: sent_def split: if_splits)
    ultimately show ?thesis using ok that by (simp add: relay_ok_def)
  qed
  have "released f s" if "\<forall>dir. copier s dir = Copying \<longrightarrow> stuck s dir = None"
    using that by (simp add: released_def may_end_def)
  moreover have "released f s" if "(first_failed s \<or> timed_out s) \<and> (f = Relay \<or> stuck s Download \<noteq> Some ClientWriter)"
    using interrupted_released [OF ok] that by auto
  ultimately have "\<exists>u. (relay_step f)\<^sup>*\<^sup>* s u \<and> phase u = Returned"
    if "(\<forall>dir. copier s dir = Copying \<longrightarrow> stuck s dir = None) \<or>
          (first_failed s \<or> timed_out s) \<and> (f = Relay \<or> stuck s Download \<noteq> Some ClientWriter)"
    using released_returns [OF ok] that by blast
  with send returned ok show ?thesis unfolding relay_ok_def by blast
qed

theorem relay_joins_witness:
  "\<exists>s. reachable (relay_start 10 0) (relay_run Relay) s \<and> copier s Upload = Copying \<and> stuck s Upload = Some ClientSource \<and>
     relay_calls s = [SetDeadline ClientWriter, SetDeadline Destination] \<and>
     (\<exists>u. (relay_step Relay)\<^sup>*\<^sup>* s u \<and> phase u = Returned)"
proof -
  let ?s0 = "\<lparr>copier = (\<lambda>_. Copying), stuck = (\<lambda>_. None), results = [], received = [], relay_calls = [], phase = WaitFirst,
          idle_ctl = newIdleController 10 0, firing = False, timed_out = False\<rparr>"
  let ?s1 = "?s0\<lparr>stuck := (stuck ?s0)(Upload := Some ClientSource)\<rparr>"
  let ?s2 = "?s1\<lparr>copier := (copier ?s1)(Download := Sending (Some EOF))\<rparr>"
  let ?s3 = "?s2\<lparr>copier := (copier ?s2)(Download := Done), results := results ?s2 @ [Some EOF]\<rparr>"
  let ?s4 = "?s3\<lparr>results := [], received := received ?s3 @ [Some EOF],
       relay_calls := relay_calls ?s3 @ (if Some EOF \<noteq> None then interrupt_calls Relay else []), phase := WaitSecond\<rparr>"
  have "reachable (relay_start 10 0) (relay_run Relay) ?s0" by (rule reach_init) (simp add: relay_start_def)
  then have "reachable (relay_start 10 0) (relay_run Relay) ?s1" by (rule reach_step) (rule relay_peer; simp)
  then have "reachable (relay_start 10 0) (relay_run Relay) ?s2"
    by (rule reach_step) (rule relay_own, rule r_copied; simp add: may_end_def)
  then have "reachable (relay_start 10 0) (relay_run Relay) ?s3"
    by (rule reach_step) (rule relay_own, rule r_send; simp add: results_capacity_def)
  then have r: "reachable (relay_start 10 0) (relay_run Relay) ?s4"
    by (rule reach_step) (rule relay_own, rule r_first; simp)
  have "\<exists>u. (relay_step Relay)\<^sup>*\<^sup>* ?s4 u \<and> phase u = Returned"
    using relay_joins [OF r] by (simp add: first_failed_def)
  with r show ?thesis by (intro exI [of _ ?s4]) simp
qed

text \<open>
  Reading through the buffered connection loses and reorders nothing: the bytes returned and the
  bytes still buffered are the bytes that were buffered followed by the bytes just read from the
  connection, which is not read while buffered bytes remain.
\<close>

theorem buffered_bytes_first:
  assumes "BufferedConn_Read (logged_read read) n c (w, i, evs) = ((data, e), c', (w', i', evs'))"
  shows "\<exists>fresh. i' = i @ fresh \<and> data @ buffered (bc_reader c') = buffered (bc_reader c) @ fresh \<and>
     (buffered (bc_reader c) \<noteq> [] \<longrightarrow> fresh = [] \<and> w' = w \<and> e = None) \<and> bc_Conn c' = bc_Conn c"
  using assms
  by (auto simp: BufferedConn_Read_def bufio_Read_def logged_read_def split: if_splits option.splits prod.splits)

theorem buffered_bytes_first_witness:
  "\<exists>fresh. ''ab'' @ ''c'' = ''abc'' @ fresh \<and> fresh = []"
proof -
  let ?b = "\<lparr>buffered = ''abc'', buffered_err = None, buffer_size = 4096\<rparr>"
  have r: "BufferedConn_Read (logged_read scripted) 2 (NewBufferedConn () ?b) (([], []), [], []) =
      ((''ab'', None), NewBufferedConn () (?b\<lparr>buffered := ''c''\<rparr>), (([], []), [], []))"
    by (simp add: BufferedConn_Read_def bufio_Read_def NewBufferedConn_def)
  from buffered_bytes_first [OF r] show ?thesis by (auto simp: NewBufferedConn_def)
qed

end
