(* ===== verification/Connect_Protocol.thy ===== *)
theory Connect_Protocol
  imports Go_Bufio Go_Net Base64 "HOL-Library.Sublist"
begin

text \<open>
  The CONNECT exchange with an upstream proxy, the protocol half of
  \<^verbatim>\<open>internal/proxy/upstream.go\<close>: the request text, writing it, and reading the response header
  within its byte budget through a buffered reader that keeps the bytes after the header.
  The loops of the reader are partial functions; that they return is a theorem.
\<close>

section \<open>Definitions\<close>

definition maxConnectResponseHeaderBytes :: int where
  "maxConnectResponseHeaderBytes = 65536"

definition consumed :: "string \<Rightarrow> bool \<Rightarrow> int" where
  "consumed part pre = int (length part) + (if pre then 0 else 2)"

definition header_overflow :: err where
  "header_overflow = Errorf ''CONNECT response headers exceed %d bytes'' [Itoa maxConnectResponseHeaderBytes]"

text \<open>The loop with its local \<^verbatim>\<open>line\<close>, and \<^verbatim>\<open>*remaining\<close> passed through.\<close>

partial_function (option) readLimitedLine_loop ::
  "'w reader \<Rightarrow> string \<Rightarrow> int \<Rightarrow> bufio_Reader \<Rightarrow> 'w \<Rightarrow> ((err + string) \<times> int \<times> bufio_Reader \<times> 'w) option" where
  "readLimitedLine_loop read line remaining b w =
     (case ReadLine read b w of
        (r, b, w) \<Rightarrow>
          (case r of
             Inl e \<Rightarrow> Some (Inl e, remaining, b, w)
           | Inr (part, pre) \<Rightarrow>
               if remaining - consumed part pre < 0 then Some (Inl header_overflow, remaining - consumed part pre, b, w)
               else if \<not> pre then Some (Inr (line @ part), remaining - consumed part pre, b, w)
               else readLimitedLine_loop read (line @ part) (remaining - consumed part pre) b w))"

definition readLimitedLine ::
  "'w reader \<Rightarrow> int \<Rightarrow> bufio_Reader \<Rightarrow> 'w \<Rightarrow> ((err + string) \<times> int \<times> bufio_Reader \<times> 'w) option" where
  "readLimitedLine read remaining b w = readLimitedLine_loop read [] remaining b w"

text \<open>The loop over the header lines, which ends at the empty line.\<close>

partial_function (option) skipHeaders ::
  "'w reader \<Rightarrow> int \<Rightarrow> bufio_Reader \<Rightarrow> 'w \<Rightarrow> (err option \<times> int \<times> bufio_Reader \<times> 'w) option" where
  "skipHeaders read remaining b w =
     (case readLimitedLine read remaining b w of
        None \<Rightarrow> None
      | Some (r, remaining, b, w) \<Rightarrow>
          (case r of
             Inl e \<Rightarrow> Some (Some (Wrapf ''read header from upstream: %w'' [] e), remaining, b, w)
           | Inr line \<Rightarrow> if line = [] then Some (None, remaining, b, w) else skipHeaders read remaining b w))"

definition statusLineCode :: "string \<Rightarrow> err + int" where
  "statusLineCode statusLine =
     (let parts = Fields statusLine in
      if length parts < 2 \<or> \<not> HasPrefix (parts ! 0) ''HTTP/''
      then Inl (Errorf ''invalid CONNECT response from upstream: %q'' [statusLine])
      else case Atoi (parts ! 1) of
             None \<Rightarrow> Inl (Errorf ''invalid upstream status code %q'' [parts ! 1])
           | Some code \<Rightarrow>
               if code < 100 \<or> 999 < code then Inl (Errorf ''invalid upstream status code %q'' [parts ! 1])
               else Inr code)"

definition readConnectResponse :: "'w reader \<Rightarrow> bufio_Reader \<Rightarrow> 'w \<Rightarrow> ((err + int) \<times> bufio_Reader \<times> 'w) option" where
  "readConnectResponse read b w =
     (case readLimitedLine read maxConnectResponseHeaderBytes b w of
        None \<Rightarrow> None
      | Some (Inl e, remaining, b, w) \<Rightarrow> Some (Inl (Wrapf ''read status line from upstream: %w'' [] e), b, w)
      | Some (Inr statusLine, remaining, b, w) \<Rightarrow>
          (case statusLineCode statusLine of
             Inl e \<Rightarrow> Some (Inl e, b, w)
           | Inr statusCode \<Rightarrow>
               (case skipHeaders read remaining b w of
                  None \<Rightarrow> None
                | Some (Some e, remaining, b, w) \<Rightarrow> Some (Inl e, b, w)
                | Some (None, remaining, b, w) \<Rightarrow> Some (Inr statusCode, b, w))))"

definition validateTargetAddress :: "string \<Rightarrow> err option" where
  "validateTargetAddress targetHost =
     (case SplitHostPort targetHost of
        Inl _ \<Rightarrow> Some (Errorf ''invalid CONNECT target %q'' [targetHost])
      | Inr (host, portText) \<Rightarrow>
          if host = '''' then Some (Errorf ''invalid CONNECT target %q'' [targetHost])
          else case Atoi portText of
                 None \<Rightarrow> Some (Errorf ''invalid CONNECT target port in %q'' [targetHost])
               | Some port \<Rightarrow>
                   if port < 1 \<or> 65535 < port then Some (Errorf ''invalid CONNECT target port in %q'' [targetHost])
                   else None)"

definition crlf :: string where
  "crlf = [carriage_return, newline]"

definition buildConnectRequest :: "string \<Rightarrow> url \<Rightarrow> string \<Rightarrow> string" where
  "buildConnectRequest targetHost upstreamURL via =
     ''CONNECT '' @ targetHost @ '' HTTP/1.1'' @ crlf @ ''Host: '' @ targetHost @ crlf @
     (if via \<noteq> '''' then ''Via: '' @ via @ crlf else '''') @
     (case url_User upstreamURL of
        None \<Rightarrow> ''''
      | Some user \<Rightarrow>
          ''Proxy-Authorization: Basic '' @
          EncodeToString (ui_username user @ '':'' @ (if ui_passwordSet user then ui_password user else '''')) @ crlf) @
     crlf"

text \<open>
  \<^verbatim>\<open>writeAll\<close>: an error, success, or the panic of slicing with a count the writer must not return.
\<close>

datatype write_outcome = WroteAll | WriteFailed err | SlicePanic

function writeAll :: "'w writer \<Rightarrow> string \<Rightarrow> 'w \<Rightarrow> write_outcome \<times> 'w" where
  "writeAll write data w =
     (if data = [] then (WroteAll, w)
      else case write data w of
        ((written, e), w) \<Rightarrow>
          (case e of
             Some e \<Rightarrow> (WriteFailed e, w)
           | None \<Rightarrow>
               if written = 0 then (WriteFailed ErrShortWrite, w)
               else if written < 0 \<or> int (length data) < written then (SlicePanic, w)
               else writeAll write (drop (nat written) data) w))"
  by pat_completeness auto

termination
  by (relation "measure (\<lambda>(write, data, w). length data)") auto

declare writeAll.simps [simp del]

section \<open>The reader always returns\<close>

text \<open>A reader whose errors are its own, and a buffer of at least two bytes (\<^verbatim>\<open>bufio\<close> uses 16 or more).\<close>

definition honest_reader :: "'w reader \<Rightarrow> bool" where
  "honest_reader read \<longleftrightarrow> (\<forall>n w. snd (fst (read n w)) \<noteq> Some ErrBufferFull)"

definition reader_ok :: "bufio_Reader \<Rightarrow> bool" where
  "reader_ok b \<longleftrightarrow> buffered_err b \<noteq> Some ErrBufferFull \<and> 2 \<le> buffer_size b"

lemma fill_reader_ok:
  assumes "fill read k b w = (b', w')" and "honest_reader read" and "reader_ok b"
  shows "reader_ok b'"
  using assms
proof (induction read k b w rule: fill.induct)
  case (2 read k b w)
  obtain data e v where r: "read (buffer_size b - length (buffered b)) w = ((data, e), v)" by (metis surj_pair)
  have "e \<noteq> Some ErrBufferFull" using 2(3) r unfolding honest_reader_def by (metis fst_conv snd_conv)
  then show ?case using 2 r by (auto simp: Let_def reader_ok_def split: if_splits)
qed (auto simp: reader_ok_def ErrBufferFull_def ErrNoProgress_def)

lemma ReadSlice_reader_ok:
  assumes "ReadSlice read b w = ((line, e), b', w')" and "honest_reader read" and "reader_ok b"
  shows "reader_ok b' \<and> (e = Some ErrBufferFull \<longrightarrow> 2 \<le> length line)"
  using assms
proof (induction read b w rule: ReadSlice.induct)
  case (1 read b w)
  show ?case
  proof (cases "Cut (buffered b) newline = None \<and> buffered_err b = None \<and> length (buffered b) < buffer_size b")
    case True
    obtain b1 w1 where f: "fill read 100 b w = (b1, w1)" by fastforce
    have "ReadSlice read b1 w1 = ((line, e), b', w')"
      using 1(2) True f by (subst (asm) ReadSlice.simps) simp
    moreover have "reader_ok b1" using fill_reader_ok [OF f 1(3,4)] .
    ultimately show ?thesis using 1(1) [OF _ _ _ f [symmetric]] True 1(3) by simp
  next
    case False
    with 1(2,4) show ?thesis
      by (subst (asm) ReadSlice.simps; cases "buffered_err b")
         (auto simp: reader_ok_def ErrBufferFull_def split: option.splits if_splits)
  qed
qed

lemma ReadLine_reader_ok:
  assumes "ReadLine read b w = (r, b', w')" and "honest_reader read" and "reader_ok b"
  shows "reader_ok b' \<and> (\<forall>part. r = Inr (part, True) \<longrightarrow> part \<noteq> [])"
proof -
  obtain line e b1 w1 where s: "ReadSlice read b w = ((line, e), b1, w1)" by (metis surj_pair)
  note ok = ReadSlice_reader_ok [OF s assms(2,3)]
  have "butlast line \<noteq> []" if "2 \<le> length line" using that by (cases line; cases "tl line") auto
  with ok assms(1) s show ?thesis
    by (auto simp: ReadLine_def reader_ok_def Let_def split: if_splits)
qed

lemma readLimitedLine_loop_returns:
  assumes "honest_reader read" and "reader_ok b"
  shows "\<exists>r m b' w'. readLimitedLine_loop read line n b w = Some (r, m, b', w') \<and> reader_ok b' \<and>
           (\<forall>l. r = Inr l \<longrightarrow> 0 \<le> m \<and> m + 2 \<le> n)"
  using assms(2)
proof (induction "nat (n + 1)" arbitrary: line n b w rule: less_induct)
  case less
  obtain q b1 w1 where l: "ReadLine read b w = (q, b1, w1)" by (metis surj_pair)
  note ok = ReadLine_reader_ok [OF l assms(1) less.prems]
  note unfold = readLimitedLine_loop.simps [of read line n b w]
  show ?case
  proof (cases q)
    case (Inl e)
    with l ok show ?thesis by (subst unfold) simp
  next
    case (Inr p)
    obtain part pre where p: "p = (part, pre)" by (cases p)
    show ?thesis
    proof (cases "\<not> pre \<or> n - consumed part pre < 0")
      case True
      with l ok Inr p show ?thesis by (subst unfold) (auto simp: consumed_def)
    next
      case False
      then have "part \<noteq> []" using ok Inr p by auto
      then have "nat (n - consumed part pre + 1) < nat (n + 1)" and dec: "n - consumed part pre \<le> n"
        using False by (cases part; auto simp: consumed_def)+
      from less.hyps [OF this(1), of b1 "line @ part" w1] ok False l Inr p dec show ?thesis
        by (subst unfold) fastforce
    qed
  qed
qed

lemma skipHeaders_returns:
  assumes "honest_reader read" and "reader_ok b"
  shows "\<exists>r m b' w'. skipHeaders read n b w = Some (r, m, b', w')"
  using assms(2)
proof (induction "nat (n + 1)" arbitrary: n b w rule: less_induct)
  case less
  obtain r m b1 w1 where l: "readLimitedLine read n b w = Some (r, m, b1, w1)" "reader_ok b1"
    "\<forall>l. r = Inr l \<longrightarrow> 0 \<le> m \<and> m + 2 \<le> n"
    using readLimitedLine_loop_returns [OF assms(1) less.prems, of "[]" n w] unfolding readLimitedLine_def by blast
  note unfold = skipHeaders.simps [of read n b w]
  show ?case
  proof (cases r)
    case (Inr line)
    with l(3) have "nat (m + 1) < nat (n + 1)" by auto
    from less.hyps [OF this l(2), of w1] l Inr show ?thesis by (subst unfold) (cases "line = []"; simp)
  qed (use l in \<open>subst unfold, simp\<close>)
qed

section \<open>Reading independent of chunks\<close>

lemma ReadLine_chunked:
  assumes "chunk_ok b cs" and "stream b cs = l @ crlf @ rest" and "newline \<notin> set l"
  shows "\<exists>b' cs'. chunk_ok b' cs' \<and> buffer_size b' = buffer_size b \<and>
     (ReadLine chunked b cs = (Inr (l, False), b', cs') \<and> stream b' cs' = rest \<or>
      (\<exists>k. 0 < k \<and> k \<le> length l \<and> ReadLine chunked b cs = (Inr (take k l, True), b', cs') \<and>
           stream b' cs' = drop k l @ crlf @ rest))"
proof -
  obtain line e b1 cs1 where s: "ReadSlice chunked b cs = ((line, e), b1, cs1)" by (metis surj_pair)
  let ?n = "buffer_size b"
  have n2: "2 \<le> ?n" using assms(1) by (simp add: chunk_ok_def)
  have nl: "newline \<noteq> carriage_return" by (simp add: newline_def carriage_return_def)
  note spec = ReadSlice_chunked [OF assms(1), unfolded s prod.case]
  show ?thesis
  proof (cases "length l + 2 \<le> ?n")
    case True
    then obtain j where j: "?n = length l + 2 + j" by (metis le_iff_add)
    have "take ?n (stream b cs) = (l @ [carriage_return]) @ newline # take (?n - length l - 2) rest"
      unfolding j by (simp add: assms(2) crlf_def)
    then have "Cut (take ?n (stream b cs)) newline = Some (l @ [carriage_return], take (?n - length l - 2) rest)"
      using Cut_append [of newline "l @ [carriage_return]"] assms(3) nl by simp
    with spec have "line = l @ crlf" "e = None" "chunk_ok b1 cs1" "buffer_size b1 = ?n" "stream b cs = line @ stream b1 cs1"
      by (auto simp: crlf_def)
    then show ?thesis
      using s assms(2) by (intro exI [of _ b1] exI [of _ cs1]) (auto simp: ReadLine_def crlf_def Let_def ErrBufferFull_def butlast_append)
  next
    case False
    have "?n - length l = 0 \<or> ?n - length l = 1" using False by linarith
    then have t: "take ?n (stream b cs) = take ?n (l @ [carriage_return])" by (auto simp: assms(2) crlf_def)
    have "newline \<notin> set (take ?n (stream b cs))" unfolding t using assms(3) nl by (auto dest: in_set_takeD)
    then have c: "Cut (take ?n (stream b cs)) newline = None" by (simp add: Cut_None)
    moreover have "?n \<le> length (stream b cs)" using False by (simp add: assms(2) crlf_def)
    ultimately have line: "line = take ?n (l @ [carriage_return])" "e = Some ErrBufferFull" "chunk_ok b1 cs1"
      "buffer_size b1 = ?n" "buffered b1 = []" "stream b cs = line @ stream b1 cs1"
      using spec by (auto simp: t)
    have len: "length line = ?n" using line(1) False by simp
    show ?thesis
    proof (cases "last line = carriage_return")
      case True
      have "line \<noteq> []" using len n2 by auto
      have "butlast line = take (?n - 1) (l @ [carriage_return])"
        unfolding line(1) by (rule butlast_take) (use False in simp)
      also have "\<dots> = take (?n - 1) l" using False by simp
      finally have bl: "butlast line = take (?n - 1) l" .
      let ?b = "b1\<lparr>buffered := carriage_return # buffered b1\<rparr>"
      have "stream b cs = butlast line @ stream ?b cs1"
        using line(6) True \<open>line \<noteq> []\<close> append_butlast_last_id [of line] by (simp add: stream_def line(5))
      then have "stream ?b cs1 = drop (?n - 1) l @ crlf @ rest"
        using assms(2) False unfolding bl by (metis append_take_drop_id append.assoc append_same_eq same_append_eq)
      then show ?thesis
        using s line True \<open>line \<noteq> []\<close> bl n2 False
        by (intro exI [of _ ?b] exI [of _ cs1]) (auto simp: ReadLine_def chunk_ok_def intro!: exI [of _ "?n - 1"])
    next
      case neq: False
      have "?n \<le> length l"
      proof (rule ccontr)
        assume "\<not> ?n \<le> length l"
        then have "?n = length l + 1" using False by simp
        with line(1) neq show False by simp
      qed
      then have "line = take ?n l" using line(1) by simp
      then have "stream b1 cs1 = drop ?n l @ crlf @ rest"
        using line(6) assms(2) by (metis append_take_drop_id append.assoc same_append_eq)
      then show ?thesis
        using s line neq \<open>?n \<le> length l\<close> \<open>line = take ?n l\<close> n2
        by (intro exI [of _ b1] exI [of _ cs1]) (auto simp: ReadLine_def intro!: exI [of _ ?n])
    qed
  qed
qed

lemma readLimitedLine_chunked:
  assumes "chunk_ok b cs" and "stream b cs = l @ crlf @ rest" and "newline \<notin> set l" and "int (length l) + 2 \<le> n"
  shows "\<exists>b' cs'. readLimitedLine_loop chunked acc n b cs = Some (Inr (acc @ l), n - (int (length l) + 2), b', cs') \<and>
           chunk_ok b' cs' \<and> stream b' cs' = rest"
  using assms
proof (induction "length l" arbitrary: l n b cs acc rule: less_induct)
  case less
  note unfold = readLimitedLine_loop.simps [of chunked acc n b cs]
  obtain b1 cs1 where b1: "chunk_ok b1 cs1" and
    r: "ReadLine chunked b cs = (Inr (l, False), b1, cs1) \<and> stream b1 cs1 = rest \<or>
      (\<exists>k. 0 < k \<and> k \<le> length l \<and> ReadLine chunked b cs = (Inr (take k l, True), b1, cs1) \<and>
           stream b1 cs1 = drop k l @ crlf @ rest)"
    using ReadLine_chunked [OF less.prems(1-3)] by blast
  from r show ?case
  proof
    assume "ReadLine chunked b cs = (Inr (l, False), b1, cs1) \<and> stream b1 cs1 = rest"
    with b1 less.prems(4) show ?thesis by (subst unfold) (simp add: consumed_def)
  next
    assume "\<exists>k. 0 < k \<and> k \<le> length l \<and> ReadLine chunked b cs = (Inr (take k l, True), b1, cs1) \<and>
           stream b1 cs1 = drop k l @ crlf @ rest"
    then obtain k where k: "0 < k" "k \<le> length l" "ReadLine chunked b cs = (Inr (take k l, True), b1, cs1)"
      "stream b1 cs1 = drop k l @ crlf @ rest" by blast
    have "length (drop k l) < length l" using k(1,2) by simp
    moreover have "newline \<notin> set (drop k l)" using less.prems(3) by (auto dest: in_set_dropD)
    moreover have len: "consumed (take k l) True = int k" "(n - int k) - (int (length (drop k l)) + 2) = n - (int (length l) + 2)"
      using k(2) by (simp_all add: consumed_def of_nat_diff)
    ultimately obtain b' cs' where "readLimitedLine_loop chunked (acc @ take k l) (n - int k) b1 cs1 =
        Some (Inr ((acc @ take k l) @ drop k l), (n - int k) - (int (length (drop k l)) + 2), b', cs')"
        "chunk_ok b' cs'" "stream b' cs' = rest"
      using less.hyps [of "drop k l" b1 cs1 "n - int k" "acc @ take k l"] b1 k less.prems(4) by auto
    moreover have "\<not> n - int k < 0" using k(2) less.prems(4) by simp
    ultimately show ?thesis using k(3) len by (subst unfold) simp
  qed
qed

text \<open>Lines with their ends, and the empty line.\<close>

definition block_text :: "string list \<Rightarrow> string" where
  "block_text ls = concat (map (\<lambda>l. l @ crlf) ls) @ crlf"

lemma block_text_simps [simp]: "block_text [] = crlf" "block_text (l # ls) = l @ crlf @ block_text ls"
  by (simp_all add: block_text_def)

lemma skipHeaders_chunked:
  assumes "chunk_ok b cs" and "stream b cs = block_text ls @ rest" and "\<forall>l \<in> set ls. l \<noteq> [] \<and> newline \<notin> set l"
    and "int (length (block_text ls)) \<le> n"
  shows "\<exists>m b' cs'. skipHeaders chunked n b cs = Some (None, m, b', cs') \<and> chunk_ok b' cs' \<and> stream b' cs' = rest"
  using assms
proof (induction ls arbitrary: n b cs)
  case Nil
  note unfold = skipHeaders.simps [of chunked n b cs]
  from readLimitedLine_chunked [OF Nil(1), of "[]" rest n "[]"] Nil(2,4) show ?case
    by (subst unfold) (auto simp: readLimitedLine_def crlf_def)
next
  case (Cons l ls)
  note unfold = skipHeaders.simps [of chunked n b cs]
  have len: "int (length (block_text (l # ls))) = int (length l) + 2 + int (length (block_text ls))"
    by (simp add: crlf_def)
  obtain b1 cs1 where r: "readLimitedLine_loop chunked [] n b cs = Some (Inr l, n - (int (length l) + 2), b1, cs1)"
    "chunk_ok b1 cs1" "stream b1 cs1 = block_text ls @ rest"
    using readLimitedLine_chunked [OF Cons.prems(1), of l "block_text ls @ rest" n "[]"] Cons.prems(2-) len by auto
  from Cons.IH [OF r(2,3), of "n - (int (length l) + 2)"] Cons.prems(3,4) len r(1) show ?case
    by (subst unfold) (auto simp: readLimitedLine_def)
qed

section \<open>Writing\<close>

text \<open>
  The contract of \<^verbatim>\<open>io.Writer\<close> with an observation \<open>out\<close> of what was written: the count is within the
  data and exactly those bytes were appended.
\<close>

definition io_writer :: "'w writer \<Rightarrow> ('w \<Rightarrow> string) \<Rightarrow> bool" where
  "io_writer write out \<longleftrightarrow>
     (\<forall>data w. case write data w of ((n, e), w') \<Rightarrow>
        0 \<le> n \<and> n \<le> int (length data) \<and> out w' = out w @ take (nat n) data)"

lemma writeAll_out:
  assumes "io_writer write out" and "writeAll write data w = (r, w')"
  shows "r \<noteq> SlicePanic \<and> (\<exists>k \<le> length data. out w' = out w @ take k data \<and> (r = WroteAll \<longrightarrow> k = length data))"
  using assms(2)
proof (induction "length data" arbitrary: data w rule: less_induct)
  case less
  show ?case
  proof (cases "data = []")
    case True
    with less.prems show ?thesis by (subst (asm) writeAll.simps) simp
  next
    case False
    obtain n e v where w: "write data w = ((n, e), v)" by (metis surj_pair)
    have c: "0 \<le> n" "n \<le> int (length data)" "out v = out w @ take (nat n) data"
      using assms(1) w by (auto simp: io_writer_def dest!: spec [of _ data] spec [of _ w])
    show ?thesis
    proof (cases "e \<noteq> None \<or> n = 0")
      case True
      with False less.prems w have "r \<noteq> SlicePanic" "r \<noteq> WroteAll" "w' = v"
        by (auto simp: writeAll.simps [of "write" data w] split: option.splits if_splits)
      with c show ?thesis by (intro conjI exI [of _ "nat n"]) auto
    next
      case go: False
      have "writeAll write (drop (nat n) data) v = (r, w')"
        using less.prems False go w c by (auto simp: writeAll.simps [of "write" data w])
      from less.hyps [OF _ this] go c False obtain k where k: "r \<noteq> SlicePanic" "k \<le> length (drop (nat n) data)"
        "out w' = out v @ take k (drop (nat n) data)" "r = WroteAll \<longrightarrow> k = length (drop (nat n) data)" by auto
      have "take (nat n) data @ take k (drop (nat n) data) = take (nat n + k) data" by (rule take_add [symmetric])
      with k c show ?thesis by (intro conjI exI [of _ "nat n + k"]) auto
    qed
  qed
qed

section \<open>What reading leaves alone\<close>

text \<open>A reader or writer that keeps an observation \<open>f\<close> of the world; so do the operations built on it.\<close>

definition reader_keeps :: "('w \<Rightarrow> 'a) \<Rightarrow> 'w reader \<Rightarrow> bool" where
  "reader_keeps f read \<longleftrightarrow> (\<forall>n w. f (snd (read n w)) = f w)"

definition writer_keeps :: "('w \<Rightarrow> 'a) \<Rightarrow> 'w writer \<Rightarrow> bool" where
  "writer_keeps f write \<longleftrightarrow> (\<forall>data w. f (snd (write data w)) = f w)"

lemma fill_keeps: "reader_keeps f read \<Longrightarrow> fill read k b w = (b', w') \<Longrightarrow> f w' = f w"
proof (induction read k b w arbitrary: b' w' rule: fill.induct)
  case (2 read k b w)
  obtain data e v where r: "read (buffer_size b - length (buffered b)) w = ((data, e), v)" by (metis surj_pair)
  have "f v = f w" using 2(2) r unfolding reader_keeps_def by (metis snd_conv)
  with 2 r show ?case by (auto simp: Let_def split: if_splits)
qed auto

lemma ReadSlice_keeps: "reader_keeps f read \<Longrightarrow> ReadSlice read b w = (r, b', w') \<Longrightarrow> f w' = f w"
proof (induction read b w rule: ReadSlice.induct)
  case (1 read b w)
  obtain b1 w1 where fl: "fill read 100 b w = (b1, w1)" by fastforce
  show ?case
    using 1(3) 1(1) [OF _ _ _ fl [symmetric] 1(2)] fill_keeps [OF 1(2) fl] fl
    by (auto simp: ReadSlice.simps [of read b w] split: option.splits if_splits)
qed

lemma ReadLine_keeps: "reader_keeps f read \<Longrightarrow> ReadLine read b w = (r, b', w') \<Longrightarrow> f w' = f w"
  using ReadSlice_keeps [of f read b w]
  by (auto simp: ReadLine_def Let_def split: prod.splits if_splits)

lemma readLimitedLine_loop_keeps:
  assumes "readLimitedLine_loop read line n b w = Some (r, m, b', w')" and "reader_keeps f read"
  shows "f w' = f w"
proof -
  let ?P = "\<lambda>read (line :: string) (n :: int) (b :: bufio_Reader) w (out :: (err + string) \<times> int \<times> bufio_Reader \<times> 'a).
    reader_keeps f read \<longrightarrow> f (snd (snd (snd out))) = f w"
  have "?P read line n b w (r, m, b', w')"
  proof (rule readLimitedLine_loop.raw_induct [where P = ?P, OF _ assms(1)], intro impI)
    fix cb read line n b w out
    assume IH: "\<And>read line n b w out. cb read line n b w = Some out \<Longrightarrow> ?P read line n b w out"
      and body: "(case ReadLine read b w of (r, b, w) \<Rightarrow>
          (case r of
             Inl e \<Rightarrow> Some (Inl e, n, b, w)
           | Inr (part, pre) \<Rightarrow>
               if n - consumed part pre < 0 then Some (Inl header_overflow, n - consumed part pre, b, w)
               else if \<not> pre then Some (Inr (line @ part), n - consumed part pre, b, w)
               else cb read (line @ part) (n - consumed part pre) b w)) = Some out"
      and keeps: "reader_keeps f read"
    obtain q b1 w1 where l: "ReadLine read b w = (q, b1, w1)" by (metis surj_pair)
    have "f w1 = f w" using ReadLine_keeps [OF keeps l] .
    with body l IH keeps show "f (snd (snd (snd out))) = f w"
      by (cases q) (auto split: if_splits prod.splits)
  qed
  with assms(2) show ?thesis by simp
qed

lemma readLimitedLine_keeps:
  "readLimitedLine read n b w = Some (r, m, b', w') \<Longrightarrow> reader_keeps f read \<Longrightarrow> f w' = f w"
  unfolding readLimitedLine_def by (rule readLimitedLine_loop_keeps)

lemma skipHeaders_keeps:
  assumes "skipHeaders read n b w = Some (r, m, b', w')" and "reader_keeps f read"
  shows "f w' = f w"
proof -
  let ?P = "\<lambda>read (n :: int) (b :: bufio_Reader) w (out :: err option \<times> int \<times> bufio_Reader \<times> 'a).
    reader_keeps f read \<longrightarrow> f (snd (snd (snd out))) = f w"
  have "?P read n b w (r, m, b', w')"
  proof (rule skipHeaders.raw_induct [where P = ?P, OF _ assms(1)], intro impI)
    fix cb read n b w out
    assume IH: "\<And>read n b w out. cb read n b w = Some out \<Longrightarrow> ?P read n b w out"
      and body: "(case readLimitedLine read n b w of None \<Rightarrow> None | Some (r, n, b, w) \<Rightarrow>
          (case r of
             Inl e \<Rightarrow> Some (Some (Wrapf ''read header from upstream: %w'' [] e), n, b, w)
           | Inr line \<Rightarrow> if line = [] then Some (None, n, b, w) else cb read n b w)) = Some out"
      and keeps: "reader_keeps f read"
    obtain q m1 b1 w1 where l: "readLimitedLine read n b w = Some (q, m1, b1, w1)"
      using body by (cases "readLimitedLine read n b w") auto
    have "f w1 = f w" using readLimitedLine_keeps [OF l keeps] .
    with body l IH keeps show "f (snd (snd (snd out))) = f w"
      by (cases q) (auto split: if_splits)
  qed
  with assms(2) show ?thesis by simp
qed

lemma readConnectResponse_keeps:
  "readConnectResponse read b w = Some (r, b', w') \<Longrightarrow> reader_keeps f read \<Longrightarrow> f w' = f w"
  by (fastforce simp: readConnectResponse_def dest: readLimitedLine_keeps skipHeaders_keeps
      split: option.splits prod.splits sum.splits)

lemma writeAll_keeps: "writer_keeps f write \<Longrightarrow> writeAll write data w = (r, w') \<Longrightarrow> f w' = f w"
proof (induction "write" data w rule: writeAll.induct)
  case (1 "write" data w)
  obtain n e v where x: "write data w = ((n, e), v)" by (metis surj_pair)
  have "f v = f w" using 1(2) x unfolding writer_keeps_def by (metis snd_conv)
  with 1 x show ?case
    by (auto simp: writeAll.simps [of "write" data w] split: if_splits option.splits)
qed

section \<open>Properties\<close>

text \<open>
  C21: Whatever an upstream proxy sends, in whatever pieces, reading its CONNECT response returns:
  with a status code between 100 and 999, or with an error.
\<close>

theorem connect_response_returns:
  assumes "honest_reader read" and "reader_ok b"
  shows "\<exists>r b' w'. readConnectResponse read b w = Some (r, b', w') \<and> (\<forall>code. r = Inr code \<longrightarrow> 100 \<le> code \<and> code \<le> 999)"
proof -
  obtain r m b1 w1 where l: "readLimitedLine read maxConnectResponseHeaderBytes b w = Some (r, m, b1, w1)" "reader_ok b1"
    using readLimitedLine_loop_returns [OF assms, of "[]" _ w] unfolding readLimitedLine_def by blast
  obtain q n b2 w2 where s: "skipHeaders read m b1 w1 = Some (q, n, b2, w2)"
    using skipHeaders_returns [OF assms(1) l(2)] by blast
  have "statusLineCode line = Inr code \<Longrightarrow> 100 \<le> code \<and> code \<le> 999" for line code
    by (auto simp: statusLineCode_def Let_def split: if_splits option.splits)
  with l s show ?thesis
    by (cases r; cases q) (auto simp: readConnectResponse_def split: sum.splits)
qed

definition demo_response :: "string list" where
  "demo_response = [''HTTP/1.'', ''1 200 OK'' @ [carriage_return], [newline] @ ''A: b'' @ crlf @ crlf @ ''SSH-'', ''2.0'']"

definition demo_reader :: bufio_Reader where
  "demo_reader = \<lparr>buffered = [], buffered_err = None, buffer_size = 4096\<rparr>"

theorem connect_response_returns_witness:
  "\<exists>r b' w'. readConnectResponse chunked demo_reader demo_response = Some (r, b', w')"
proof -
  have h: "honest_reader chunked"
    by (auto simp: honest_reader_def chunked_def ErrBufferFull_def split: list.splits)
  have "reader_ok demo_reader" by (simp add: reader_ok_def demo_reader_def)
  from connect_response_returns [OF h this, of demo_response] show ?thesis by blast
qed

text \<open>
  C20: A response with a valid status line, header lines and an empty line, within the budget, is
  read to its status code however it is cut into chunks and whatever the buffer size; and exactly the
  bytes after the empty line remain to be read, so none of the tunnel's first bytes are lost.
\<close>

theorem connect_response_exact:
  assumes "chunk_ok b cs" and "stream b cs = block_text (statusLine # headers) @ rest"
    and "statusLineCode statusLine = Inr code" and "newline \<notin> set statusLine"
    and "\<forall>l \<in> set headers. l \<noteq> [] \<and> newline \<notin> set l"
    and "length (block_text (statusLine # headers)) \<le> 65536"
  shows "\<exists>b' cs'. readConnectResponse chunked b cs = Some (Inr code, b', cs') \<and> chunk_ok b' cs' \<and> stream b' cs' = rest"
proof -
  have len: "length (block_text (statusLine # headers)) = length statusLine + 2 + length (block_text headers)"
    by (simp add: crlf_def)
  obtain b1 cs1 where r: "readLimitedLine_loop chunked [] maxConnectResponseHeaderBytes b cs =
      Some (Inr statusLine, maxConnectResponseHeaderBytes - (int (length statusLine) + 2), b1, cs1)"
    "chunk_ok b1 cs1" "stream b1 cs1 = block_text headers @ rest"
    using readLimitedLine_chunked [OF assms(1), of statusLine "block_text headers @ rest" maxConnectResponseHeaderBytes "[]"]
      assms(2,4,6) len by (auto simp: maxConnectResponseHeaderBytes_def)
  have "int (length (block_text headers)) \<le> maxConnectResponseHeaderBytes - (int (length statusLine) + 2)"
    using assms(6) len by (simp add: maxConnectResponseHeaderBytes_def)
  from skipHeaders_chunked [OF r(2,3) assms(5) this]
  obtain m b2 cs2 where "skipHeaders chunked (maxConnectResponseHeaderBytes - (int (length statusLine) + 2)) b1 cs1 =
      Some (None, m, b2, cs2)" "chunk_ok b2 cs2" "stream b2 cs2 = rest" by blast
  with r(1) assms(3) show ?thesis by (simp add: readConnectResponse_def readLimitedLine_def)
qed

theorem connect_response_exact_witness:
  "\<exists>b' cs'. readConnectResponse chunked demo_reader demo_response = Some (Inr 200, b', cs') \<and> stream b' cs' = ''SSH-2.0''"
proof -
  have a: "chunk_ok demo_reader demo_response" by (simp add: chunk_ok_def demo_reader_def demo_response_def)
  have b: "stream demo_reader demo_response = block_text [''HTTP/1.1 200 OK'', ''A: b''] @ ''SSH-2.0''"
    by (simp add: stream_def demo_reader_def demo_response_def crlf_def)
  have c: "statusLineCode ''HTTP/1.1 200 OK'' = Inr 200" by code_simp
  have d: "newline \<notin> set ''HTTP/1.1 200 OK''" "\<forall>l \<in> set [''A: b'']. l \<noteq> [] \<and> newline \<notin> set l"
    "length (block_text [''HTTP/1.1 200 OK'', ''A: b'']) \<le> 65536"
    by (simp_all add: newline_def crlf_def)
  from connect_response_exact [OF a b c d] show ?thesis by blast
qed

text \<open>
  Writing the request either delivers every byte in order, or fails having delivered a prefix;
  with a writer that keeps the contract of \<^verbatim>\<open>io.Writer\<close> the slicing never panics.
\<close>

theorem write_all_delivers:
  assumes "io_writer write out" and "writeAll write data w = (r, w')"
  shows "r \<noteq> SlicePanic \<and> prefix (out w) (out w') \<and> prefix (out w') (out w @ data) \<and>
         (r = WroteAll \<longrightarrow> out w' = out w @ data)"
  using writeAll_out [OF assms] by (auto simp: take_is_prefix)

definition demo_writer :: "string writer" where
  "demo_writer data out = ((int (min 3 (length data)), None), out @ take 3 data)"

theorem write_all_delivers_witness: "writeAll demo_writer ''CONNECT'' [] = (WroteAll, ''CONNECT'')"
proof -
  have io: "io_writer demo_writer (\<lambda>out. out)"
    by (auto simp: io_writer_def demo_writer_def min_def)
  have r: "fst (writeAll demo_writer ''CONNECT'' []) = WroteAll"
    by (simp add: writeAll.simps demo_writer_def)
  from write_all_delivers [OF io surjective_pairing] r have "snd (writeAll demo_writer ''CONNECT'' []) = ''CONNECT''"
    by (metis append_Nil)
  with r show ?thesis by (simp add: prod_eq_iff)
qed

text \<open>
  C22: The request consists of its request line, the \<^verbatim>\<open>Host\<close>, optional \<^verbatim>\<open>Via\<close> and optional
  credentials lines and the empty line; the credentials line contains no line break, whatever the
  credentials, so they cannot smuggle anything into the request; and they decode to the user name
  and password of the URL.
\<close>

theorem connect_request_lines:
  "\<exists>ls. buildConnectRequest target u via =
           block_text ([''CONNECT '' @ target @ '' HTTP/1.1'', ''Host: '' @ target] @
             (if via \<noteq> '''' then [''Via: '' @ via] else []) @ ls) \<and>
         newline \<notin> set (concat ls) \<and>
         (case url_User u of
            None \<Rightarrow> ls = []
          | Some user \<Rightarrow> \<exists>credentials. ls = [''Proxy-Authorization: Basic '' @ credentials] \<and>
              DecodeString credentials = Some (ui_username user @ '':'' @ (if ui_passwordSet user then ui_password user else '''')))"
proof (cases "url_User u")
  case None
  then show ?thesis by (intro exI [of _ "[]"]) (auto simp: buildConnectRequest_def block_text_def)
next
  case (Some user)
  let ?c = "EncodeToString (ui_username user @ '':'' @ (if ui_passwordSet user then ui_password user else ''''))"
  have "newline \<notin> set ?c"
    using EncodeToString_clean [of newline] by (auto simp: newline_def)
  moreover have "newline \<notin> set ''Proxy-Authorization: Basic ''" by (simp add: newline_def)
  moreover have "DecodeString ?c = Some (ui_username user @ '':'' @ (if ui_passwordSet user then ui_password user else ''''))"
    by (rule DecodeString_EncodeToString)
  ultimately show ?thesis
    using Some by (intro exI [of _ "[''Proxy-Authorization: Basic '' @ ?c]"])
      (simp add: buildConnectRequest_def block_text_def del: EncodeToString.simps)
qed

end
