(* ===== verification/Upstream.thy ===== *)
theory Upstream
  imports Basic_Auth Concurrent_Limiter Destination_ACL Headers Tunnel_Registry Tunnel_Relay Connect_Protocol
begin

text \<open>
  The server's state, and opening the connection a tunnel uses, directly or through an upstream
  proxy: \<^verbatim>\<open>buildProxyFunc\<close>, \<^verbatim>\<open>dialUpstream\<close> and \<^verbatim>\<open>dialApprovedUpstream\<close> of
  \<^verbatim>\<open>internal/proxy/upstream.go\<close> and the dial helpers of \<^verbatim>\<open>server.go\<close>.

  Everything outside the program is an operation of \<open>net_env\<close> on a world \<open>'w\<close>: dialling, closing,
  deadlines, the TLS handshake, reading and writing, the clock, and the state of the setup context
  (\<^verbatim>\<open>context.Cause\<close> and the stop function of \<^verbatim>\<open>context.AfterFunc\<close>, whose interrupt acts on the
  world).  A result \<open>None\<close> means that the function does not return normally: a panic, or a read loop
  that never ends.
\<close>

section \<open>Environment and state\<close>

datatype 'c conn = RawConn 'c | TLSConn 'c

fun raw_conn :: "'c conn \<Rightarrow> 'c" where
  "raw_conn (RawConn c) = c"
| "raw_conn (TLSConn c) = c"

record ('w, 'c) net_env =
  env_lookup :: "string \<Rightarrow> string \<Rightarrow> err + Addr list"
  env_ctx_done :: "'w \<Rightarrow> bool"
  env_dial :: "string \<Rightarrow> string \<Rightarrow> 'w \<Rightarrow> (err + 'c) \<times> 'w"
  env_now :: "'w \<Rightarrow> time"
  env_SetDeadline :: "'c conn \<Rightarrow> time option \<Rightarrow> 'w \<Rightarrow> err option \<times> 'w"  \<comment> \<open>\<open>None\<close>: the zero time\<close>
  env_Close :: "'c conn \<Rightarrow> 'w \<Rightarrow> 'w"
  env_Handshake :: "'c \<Rightarrow> string \<Rightarrow> 'w \<Rightarrow> err option \<times> 'w"
  env_Write :: "'c conn \<Rightarrow> 'w writer"
  env_Read :: "'c conn \<Rightarrow> 'w reader"
  env_cause :: "'w \<Rightarrow> err option"
  env_stop_interrupt :: "'w \<Rightarrow> bool \<times> 'w"

record Server =
  srv_config :: Config
  srv_authenticator :: Basic
  srv_proxyFunc :: "Request \<Rightarrow> err + url option"
  srv_network :: string
  srv_tunnels :: Registry
  srv_tunnelLimiter :: concurrentLimiter
  srv_destinationACL :: destinationACL

section \<open>Choosing the upstream\<close>

definition buildProxyFuncWithEnvironment ::
  "(string \<Rightarrow> url option) \<Rightarrow> (url \<Rightarrow> string) \<Rightarrow> string \<Rightarrow> (Request \<Rightarrow> err + url option)
     \<Rightarrow> err + (Request \<Rightarrow> err + url option)" where
  "buildProxyFuncWithEnvironment parse url_String rawURL proxyFromEnvironment =
     (if rawURL = DirectUpstream then Inr (\<lambda>_. Inr None)
      else if rawURL \<noteq> '''' then
        (case ParseProxyURL parse rawURL of
           Inl e \<Rightarrow> Inl (Wrapf ''invalid upstream_proxy: %w'' [] e)
         | Inr proxyURL \<Rightarrow> Inr (\<lambda>_. Inr (Some proxyURL)))
      else Inr (\<lambda>request.
        case proxyFromEnvironment request of
          Inl e \<Rightarrow> Inl e
        | Inr None \<Rightarrow> Inr None
        | Inr (Some proxyURL) \<Rightarrow>
            (case ParseProxyURL parse (url_String proxyURL) of
               Inl e \<Rightarrow> Inl (Wrapf ''invalid proxy from environment: %w'' [] e)
             | Inr parsed \<Rightarrow> Inr (Some parsed))))"

section \<open>Dial helpers\<close>

definition approveDestination :: "('w, 'c) net_env \<Rightarrow> Server \<Rightarrow> string \<Rightarrow> err + approvedDestination" where
  "approveDestination env p address = approve (srv_destinationACL p) (env_lookup env) (srv_network p) address"

definition dialDestination :: "('w, 'c) net_env \<Rightarrow> Server \<Rightarrow> string \<Rightarrow> 'w \<Rightarrow> (err + 'c) \<times> 'w" where
  "dialDestination env p address w =
     dial (srv_destinationACL p) (env_lookup env) (env_ctx_done env) (env_dial env) (srv_network p) address w"

definition dialApprovedDestination :: "('w, 'c) net_env \<Rightarrow> Server \<Rightarrow> approvedDestination \<Rightarrow> 'w \<Rightarrow> (err + 'c) \<times> 'w" where
  "dialApprovedDestination env p destination w =
     dialApproved (env_ctx_done env) (env_dial env) (srv_network p) destination w"

section \<open>The connection for a tunnel\<close>

datatype 'c tunnel_conn = DirectConn 'c | ProxiedConn "'c conn BufferedConn"

definition or_cause :: "('w, 'c) net_env \<Rightarrow> 'w \<Rightarrow> err \<Rightarrow> err" where
  "or_cause env w e = (case env_cause env w of Some cause \<Rightarrow> cause | None \<Rightarrow> e)"

text \<open>The TLS part: the connection to talk to the proxy over.\<close>

definition secureUpstream :: "('w, 'c) net_env \<Rightarrow> url \<Rightarrow> 'c \<Rightarrow> 'w \<Rightarrow> (err + 'c conn) \<times> 'w" where
  "secureUpstream env upstreamURL rawConn w =
     (if url_Scheme upstreamURL = ''https'' then
        (case env_Handshake env rawConn (Hostname upstreamURL) w of
           (Some e, w) \<Rightarrow>
             let w = env_Close env (RawConn rawConn) w in
             (Inl (Wrapf ''TLS handshake with upstream proxy: %w'' [] (or_cause env w e)), w)
         | (None, w) \<Rightarrow> (Inr (TLSConn rawConn), w))
      else (Inr (RawConn rawConn), w))"

text \<open>The CONNECT exchange over it.\<close>

definition exchangeConnect ::
  "('w, 'c) net_env \<Rightarrow> url \<Rightarrow> string \<Rightarrow> string \<Rightarrow> 'c conn \<Rightarrow> 'w \<Rightarrow> ((err + 'c tunnel_conn) \<times> 'w) option" where
  "exchangeConnect env upstreamURL targetAddress via conn w =
     (case writeAll (env_Write env conn) (buildConnectRequest targetAddress upstreamURL via) w of
        (SlicePanic, w) \<Rightarrow> None
      | (WriteFailed e, w) \<Rightarrow>
          let w = env_Close env conn w in
          Some (Inl (Wrapf ''send CONNECT to upstream: %w'' [] (or_cause env w e)), w)
      | (WroteAll, w) \<Rightarrow>
          (case readConnectResponse (env_Read env conn) \<lparr>buffered = [], buffered_err = None, buffer_size = 4096\<rparr> w of
             None \<Rightarrow> None
           | Some (Inl e, reader, w) \<Rightarrow>
               let w = env_Close env conn w in
               Some (Inl (case env_cause env w of
                            Some cause \<Rightarrow> Wrapf ''read CONNECT response from upstream: %w'' [] cause
                          | None \<Rightarrow> e), w)
           | Some (Inr statusCode, reader, w) \<Rightarrow>
               (case env_stop_interrupt env w of
                  (False, w) \<Rightarrow>
                    let w = env_Close env conn w in
                    Some (Inl (Wrapf ''set up upstream CONNECT: %w'' [] (or_cause env w Canceled)), w)
                | (True, w) \<Rightarrow>
                    if statusCode \<noteq> StatusOK then
                      Some (Inl (Errorf ''upstream proxy CONNECT returned %d'' [Itoa statusCode]), env_Close env conn w)
                    else
                      (case env_SetDeadline env conn None w of
                         (Some e, w) \<Rightarrow>
                           Some (Inl (Wrapf ''clear upstream setup deadline: %w'' [] e), env_Close env conn w)
                       | (None, w) \<Rightarrow> Some (Inr (ProxiedConn (NewBufferedConn conn reader)), w)))))"

definition dialApprovedUpstream ::
  "('w, 'c) net_env \<Rightarrow> (string \<Rightarrow> url option) \<Rightarrow> (url \<Rightarrow> string) \<Rightarrow> (url \<Rightarrow> string) \<Rightarrow> Server \<Rightarrow> approvedDestination \<Rightarrow> string \<Rightarrow> 'w
     \<Rightarrow> ((err + 'c tunnel_conn) \<times> 'w) option" where
  "dialApprovedUpstream env parse url_String redacted p target via w =
     (let proxyRequest = \<lparr>req_Method = '''', req_URL = empty_url\<lparr>url_Scheme := ''https'', url_Host := original target\<rparr>,
            req_ProtoMajor = 0, req_ProtoMinor = 0, req_Header = [], req_Host = '''', req_RemoteAddr = ''''\<rparr>
      in
      case srv_proxyFunc p proxyRequest of
        Inl e \<Rightarrow> Some (Inl (Wrapf ''select upstream proxy: %w'' [] e), w)
      | Inr upstream \<Rightarrow>
          (case DialNetwork (Network (srv_config p)) of
             Inl e \<Rightarrow> Some (Inl e, w)
           | Inr _ \<Rightarrow>
               (case upstream of
                  None \<Rightarrow>
                    (case dialApprovedDestination env p target w of
                       (Inl e, w) \<Rightarrow> Some (Inl e, w)
                     | (Inr c, w) \<Rightarrow> Some (Inr (DirectConn c), w))
                | Some selected \<Rightarrow>
                    (case ParseProxyURL parse (url_String selected) of
                       Inl e \<Rightarrow> Some (Inl (Wrapf ''invalid selected upstream proxy: %w'' [] e), w)
                     | Inr upstreamURL \<Rightarrow>
                         (case ProxyAddress upstreamURL of
                            Inl e \<Rightarrow> Some (Inl (Wrapf ''invalid selected upstream proxy: %w'' [] e), w)
                          | Inr upstreamAddress \<Rightarrow>
                              (case dialDestination env p upstreamAddress w of
                                 (Inl e, w) \<Rightarrow>
                                   Some (Inl (Wrapf ''dial upstream proxy %s: %w'' [redacted upstreamURL] e), w)
                               | (Inr rawConn, w) \<Rightarrow>
                                   (case env_SetDeadline env (RawConn rawConn)
                                           (Some (time_Add (env_now env w) (ResponseHeaderTimeout (srv_config p)))) w of
                                      (Some e, w) \<Rightarrow>
                                        Some (Inl (Wrapf ''set upstream setup deadline: %w'' [] e),
                                              env_Close env (RawConn rawConn) w)
                                    | (None, w) \<Rightarrow>
                                        (case secureUpstream env upstreamURL rawConn w of
                                           (Inl e, w) \<Rightarrow> Some (Inl e, w)
                                         | (Inr conn, w) \<Rightarrow>
                                             if addresses target = [] then None
                                             else exchangeConnect env upstreamURL (addresses target ! 0) via conn w))))))))"

definition dialUpstream ::
  "('w, 'c) net_env \<Rightarrow> (string \<Rightarrow> url option) \<Rightarrow> (url \<Rightarrow> string) \<Rightarrow> (url \<Rightarrow> string) \<Rightarrow> Server \<Rightarrow> string \<Rightarrow> string \<Rightarrow> 'w
     \<Rightarrow> ((err + 'c tunnel_conn) \<times> 'w) option" where
  "dialUpstream env parse url_String redacted p targetHost via w =
     (case validateTargetAddress targetHost of
        Some e \<Rightarrow> Some (Inl e, w)
      | None \<Rightarrow>
          (case approveDestination env p targetHost of
             Inl e \<Rightarrow> Some (Inl e, w)
           | Inr approved \<Rightarrow> dialApprovedUpstream env parse url_String redacted p approved via w))"

section \<open>Observing connections\<close>

text \<open>The environment with a log of dial attempts, connections opened and connections closed.\<close>

datatype 'c net_event = Attempt string string | Opened 'c | Closed 'c

definition observe :: "('w, 'c) net_env \<Rightarrow> ('w \<times> 'c net_event list, 'c) net_env" where
  "observe env =
     \<lparr>env_lookup = env_lookup env,
      env_ctx_done = env_ctx_done env \<circ> fst,
      env_dial = (\<lambda>n a (w, l). case env_dial env n a w of
        (r, w) \<Rightarrow> (r, (w, l @ Attempt n a # (case r of Inr c \<Rightarrow> [Opened c] | Inl _ \<Rightarrow> [])))),
      env_now = env_now env \<circ> fst,
      env_SetDeadline = (\<lambda>c t (w, l). case env_SetDeadline env c t w of (e, w) \<Rightarrow> (e, (w, l))),
      env_Close = (\<lambda>c (w, l). (env_Close env c w, l @ [Closed (raw_conn c)])),
      env_Handshake = (\<lambda>c h (w, l). case env_Handshake env c h w of (e, w) \<Rightarrow> (e, (w, l))),
      env_Write = (\<lambda>c d (w, l). case env_Write env c d w of (r, w) \<Rightarrow> (r, (w, l))),
      env_Read = (\<lambda>c n (w, l). case env_Read env c n w of (r, w) \<Rightarrow> (r, (w, l))),
      env_cause = env_cause env \<circ> fst,
      env_stop_interrupt = (\<lambda>(w, l). case env_stop_interrupt env w of (b, w) \<Rightarrow> (b, (w, l)))\<rparr>"

lemma observe_keeps:
  "reader_keeps snd (env_Read (observe env) c)" "writer_keeps snd (env_Write (observe env) c)"
  by (auto simp: reader_keeps_def writer_keeps_def observe_def split: prod.splits)

lemma observe_log:
  "snd (snd (env_SetDeadline (observe env) c t s)) = snd s"
  "snd (snd (env_Handshake (observe env) d h s)) = snd s"
  "snd (snd (env_stop_interrupt (observe env) s)) = snd s"
  "snd (env_Close (observe env) c s) = snd s @ [Closed (raw_conn c)]"
  by (auto simp: observe_def split: prod.splits)

lemma observe_dial_loop:
  assumes "dial_loop ctx_done (env_dial (observe env)) network as errs s = (r, s')"
  shows "\<exists>k. snd s' = snd s @ map (Attempt network) (take k as) @ (case r of Inr c \<Rightarrow> [Opened c] | Inl _ \<Rightarrow> [])"
  using assms
proof (induction as arbitrary: errs s)
  case (Cons x as)
  obtain q v where q: "env_dial (observe env) network x s = (q, v)" by (metis surj_pair)
  have v: "snd v = snd s @ Attempt network x # (case q of Inr c \<Rightarrow> [Opened c] | Inl _ \<Rightarrow> [])"
    using q by (cases s) (auto simp: observe_def split: prod.splits)
  show ?case
  proof (cases "\<exists>e. q = Inl e \<and> \<not> ctx_done v")
    case True
    then obtain e where e: "q = Inl e" "\<not> ctx_done v" by blast
    then have "dial_loop ctx_done (env_dial (observe env)) network as (errs @ [Wrapf ''%s: %w'' [x] e]) v = (r, s')"
      using Cons.prems q by (simp add: Let_def)
    from Cons.IH [OF this] v e obtain k where
      "snd s' = snd s @ map (Attempt network) (take (Suc k) (x # as)) @ (case r of Inr c \<Rightarrow> [Opened c] | Inl _ \<Rightarrow> [])"
      by auto
    then show ?thesis by blast
  next
    case False
    with Cons.prems q v show ?thesis by (intro exI [of _ 1]) (auto simp: Let_def split: sum.splits)
  qed
qed auto

definition attempts_only :: "string \<Rightarrow> (string \<Rightarrow> bool) \<Rightarrow> 'c net_event list \<Rightarrow> bool" where
  "attempts_only network ok l \<longleftrightarrow> (\<exists>xs. l = map (Attempt network) xs \<and> (\<forall>x \<in> set xs. ok x))"

lemma observe_dialApproved:
  assumes "dialApproved ctx_done (env_dial (observe env)) network d s = (r, s')" and "\<forall>x \<in> set (addresses d). ok x"
  shows "\<exists>l. snd s' = snd s @ l @ (case r of Inr c \<Rightarrow> [Opened c] | Inl _ \<Rightarrow> []) \<and> attempts_only network ok l"
proof -
  obtain q where q: "dial_loop ctx_done (env_dial (observe env)) network (addresses d) [] s = (q, s')"
    "(\<exists>c. q = Inr c \<and> r = Inr c) \<or> (\<exists>es e. q = Inl es \<and> r = Inl e)"
    using assms(1) by (auto simp: dialApproved_def split: prod.splits sum.splits)
  from observe_dial_loop [OF q(1)] obtain k where
    k: "snd s' = snd s @ map (Attempt network) (take k (addresses d)) @ (case q of Inr c \<Rightarrow> [Opened c] | Inl _ \<Rightarrow> [])" ..
  have "attempts_only network ok (map (Attempt network) (take k (addresses d)))"
    unfolding attempts_only_def using assms(2) by (blast dest: in_set_takeD)
  with k q(2) show ?thesis by auto
qed

lemma observe_dialDestination:
  assumes "dialDestination (observe env) p address s = (r, s')"
  shows "\<exists>l. snd s' = snd s @ l @ (case r of Inr c \<Rightarrow> [Opened c] | Inl _ \<Rightarrow> []) \<and>
     attempts_only (srv_network p) (permitted (srv_destinationACL p)) l"
proof (cases "approve (srv_destinationACL p) (env_lookup (observe env)) (srv_network p) address")
  case (Inl e)
  with assms show ?thesis by (auto simp: dialDestination_def dial_def attempts_only_def)
next
  case (Inr d)
  with assms have "dialApproved (env_ctx_done (observe env)) (env_dial (observe env)) (srv_network p) d s = (r, s')"
    by (simp add: dialDestination_def dial_def)
  then show ?thesis
    by (rule observe_dialApproved) (use approve_contract [OF Inr] in blast)
qed

text \<open>What a setup step may add to the log: nothing when it succeeds, the close of the connection when it fails.\<close>

lemma observe_secureUpstream:
  assumes "secureUpstream (observe env) u c s = (r, s')"
  shows "case r of Inl _ \<Rightarrow> snd s' = snd s @ [Closed c] | Inr conn \<Rightarrow> snd s' = snd s \<and> raw_conn conn = c"
proof -
  obtain e v where h: "env_Handshake (observe env) c (Hostname u) s = (e, v)" by (metis surj_pair)
  have v: "snd v = snd s" using observe_log(2) [of env c "Hostname u" s] h by simp
  show ?thesis
    using assms h v observe_log(4) [of env "RawConn c" v]
    by (cases e) (auto simp: secureUpstream_def Let_def split: if_splits)
qed

lemma observe_exchangeConnect:
  assumes "exchangeConnect (observe env) u target via conn s = Some (r, s')"
  shows "case r of Inl _ \<Rightarrow> snd s' = snd s @ [Closed (raw_conn conn)]
     | Inr t \<Rightarrow> snd s' = snd s \<and> (\<exists>b. t = ProxiedConn (NewBufferedConn conn b))"
proof -
  obtain o1 s1 where w: "writeAll (env_Write (observe env) conn) (buildConnectRequest target u via) s = (o1, s1)" by (metis surj_pair)
  have s1: "snd s1 = snd s" using writeAll_keeps [OF observe_keeps(2) w] .
  show ?thesis
  proof (cases o1)
    case WroteAll
    then obtain q b s2 where rd: "readConnectResponse (env_Read (observe env) conn)
        \<lparr>buffered = [], buffered_err = None, buffer_size = 4096\<rparr> s1 = Some (q, b, s2)"
      using assms w by (auto simp: exchangeConnect_def split: option.splits)
    have s2: "snd s2 = snd s" using readConnectResponse_keeps [OF rd observe_keeps(1)] s1 by simp
    obtain ok s3 where st: "env_stop_interrupt (observe env) s2 = (ok, s3)" by (metis surj_pair)
    have s3: "snd s3 = snd s" using observe_log(3) [of env s2] st s2 by simp
    obtain e s4 where dl: "env_SetDeadline (observe env) conn None s3 = (e, s4)" by (metis surj_pair)
    have s4: "snd s4 = snd s" using observe_log(1) [of env conn None s3] dl s3 by simp
    show ?thesis
      using assms w WroteAll rd st dl s2 s3 s4
      by (cases q; cases ok; cases e) (auto simp: exchangeConnect_def Let_def observe_log(4) split: if_splits)
  qed (use assms w s1 in \<open>auto simp: exchangeConnect_def Let_def observe_log(4)\<close>)
qed

definition connection_log :: "string \<Rightarrow> (string \<Rightarrow> bool) \<Rightarrow> (err + 'c tunnel_conn) \<Rightarrow> 'c net_event list \<Rightarrow> bool" where
  "connection_log network ok r l \<longleftrightarrow>
     (\<exists>tries rest. l = tries @ rest \<and> attempts_only network ok tries \<and>
        (case r of
           Inl _ \<Rightarrow> rest = [] \<or> (\<exists>c. rest = [Opened c, Closed c])
         | Inr (DirectConn c) \<Rightarrow> rest = [Opened c]
         | Inr (ProxiedConn b) \<Rightarrow> rest = [Opened (raw_conn (bc_Conn b))]))"

lemma connection_log_intros:
  "attempts_only network ok t \<Longrightarrow> connection_log network ok (Inl e) t"
  "attempts_only network ok t \<Longrightarrow> connection_log network ok (Inl e) (t @ [Opened c, Closed c])"
  "attempts_only network ok t \<Longrightarrow> connection_log network ok (Inr (DirectConn c)) (t @ [Opened c])"
  "attempts_only network ok t \<Longrightarrow> raw_conn conn = c \<Longrightarrow>
     connection_log network ok (Inr (ProxiedConn (NewBufferedConn conn b))) (t @ [Opened c])"
  by (auto simp: connection_log_def NewBufferedConn_def)

lemma attempts_only_Nil [simp]: "attempts_only network ok []"
  by (auto simp: attempts_only_def)

text \<open>From the dialled connection on: the setup deadline, TLS and the CONNECT exchange.\<close>

lemma observe_setup:
  assumes d: "env_SetDeadline (observe env) (RawConn c) t s = (e, s1)"
    and l: "snd s = tries @ [Opened c]" and a: "attempts_only network ok tries"
    and r: "(case e of
       Some e \<Rightarrow> Some (Inl (Wrapf m [] e), env_Close (observe env) (RawConn c) s1)
     | None \<Rightarrow> (case secureUpstream (observe env) u c s1 of
          (Inl e, w) \<Rightarrow> Some (Inl e, w)
        | (Inr conn, w) \<Rightarrow> if as = [] then None else exchangeConnect (observe env) u (as ! 0) via conn w)) = Some (r, s')"
  shows "connection_log network ok r (snd s')"
proof -
  have s1: "snd s1 = tries @ [Opened c]" using observe_log(1) [of env "RawConn c" t s] d l by simp
  show ?thesis
  proof (cases e)
    case (Some x)
    with r s1 observe_log(4) [of env "RawConn c" s1] connection_log_intros(2) [OF a] show ?thesis by auto
  next
    case None
    obtain q s2 where q: "secureUpstream (observe env) u c s1 = (q, s2)" by (metis surj_pair)
    note sec = observe_secureUpstream [OF q]
    show ?thesis
    proof (cases q)
      case (Inl y)
      with None r q sec s1 connection_log_intros(2) [OF a] show ?thesis by auto
    next
      case (Inr conn)
      with None r q have "exchangeConnect (observe env) u (as ! 0) via conn s2 = Some (r, s')"
        by (simp split: if_splits)
      from observe_exchangeConnect [OF this] sec Inr s1 connection_log_intros(2,4) [OF a] show ?thesis
        by (cases r) auto
    qed
  qed
qed

lemma observe_dialApprovedUpstream:
  assumes "dialApprovedUpstream (observe env) parse url_String redacted p target via s = Some (r, s')"
    and "snd s = []" and "\<forall>x \<in> set (addresses target). permitted (srv_destinationACL p) x"
  shows "connection_log (srv_network p) (permitted (srv_destinationACL p)) r (snd s')"
proof -
  note logs = connection_log_intros [where network = "srv_network p" and ok = "permitted (srv_destinationACL p)"]
  note body = assms(1) [unfolded dialApprovedUpstream_def Let_def]
  show ?thesis
  proof (cases "\<exists>selected n. srv_proxyFunc p \<lparr>req_Method = '''',
      req_URL = empty_url\<lparr>url_Scheme := ''https'', url_Host := original target\<rparr>,
      req_ProtoMajor = 0, req_ProtoMinor = 0, req_Header = [], req_Host = '''', req_RemoteAddr = ''''\<rparr> = Inr (Some selected) \<and>
      DialNetwork (Network (srv_config p)) = Inr n")
    case False
    obtain q s1 where q: "dialApprovedDestination (observe env) p target s = (q, s1)" by (metis surj_pair)
    from observe_dialApproved [OF q [unfolded dialApprovedDestination_def] assms(3)] obtain l where
      l: "snd s1 = snd s @ l @ (case q of Inr c \<Rightarrow> [Opened c] | Inl _ \<Rightarrow> [])"
      "attempts_only (srv_network p) (permitted (srv_destinationACL p)) l" by blast
    show ?thesis
      using body False q l assms(2) logs(1) [of "[]"] logs(1,3) [OF l(2)]
      by (auto split: sum.splits option.splits)
  next
    case True
    then obtain selected n where sel: "srv_proxyFunc p \<lparr>req_Method = '''',
      req_URL = empty_url\<lparr>url_Scheme := ''https'', url_Host := original target\<rparr>,
      req_ProtoMajor = 0, req_ProtoMinor = 0, req_Header = [], req_Host = '''', req_RemoteAddr = ''''\<rparr> = Inr (Some selected)"
      "DialNetwork (Network (srv_config p)) = Inr n" by blast
    show ?thesis
    proof (cases "\<exists>u a. ParseProxyURL parse (url_String selected) = Inr u \<and> ProxyAddress u = Inr a")
      case False
      with body sel assms(2) logs(1) [of "[]"] show ?thesis by (auto split: sum.splits)
    next
      case True
      then obtain u a where u: "ParseProxyURL parse (url_String selected) = Inr u" "ProxyAddress u = Inr a" by blast
      obtain q s1 where q: "dialDestination (observe env) p a s = (q, s1)" by (metis surj_pair)
      from observe_dialDestination [OF q] obtain l where
        l: "snd s1 = snd s @ l @ (case q of Inr c \<Rightarrow> [Opened c] | Inl _ \<Rightarrow> [])"
        "attempts_only (srv_network p) (permitted (srv_destinationACL p)) l" by blast
      show ?thesis
      proof (cases q)
        case (Inl e)
        with body sel u q l assms(2) logs(1) [OF l(2)] show ?thesis by auto
      next
        case (Inr c)
        obtain e s2 where d: "env_SetDeadline (observe env) (RawConn c)
            (Some (time_Add (env_now (observe env) s1) (ResponseHeaderTimeout (srv_config p)))) s1 = (e, s2)"
          by (metis surj_pair)
        have l1: "snd s1 = l @ [Opened c]" using l(1) Inr assms(2) by simp
        show ?thesis
          by (rule observe_setup [OF d l1 l(2), where u = u and via = via and as = "addresses target"
                and m = "''set upstream setup deadline: %w''"])
             (use body sel u q Inr d in \<open>auto split: option.splits\<close>)
      qed
    qed
  qed
qed

section \<open>Properties\<close>

text \<open>
  C18: Opening the connection for an approved tunnel leaks nothing and contacts only permitted
  addresses, whatever the network, the upstream proxy and the context do: every dial attempt, to the
  destination or to the upstream proxy, goes to an address the policy permits; at most one connection
  is opened; it is closed on every error path; and on success it is the one returned, still open.
\<close>

theorem upstream_connection_log:
  assumes "approveDestination env p address = Inr target"
    and "dialApprovedUpstream (observe env) parse url_String redacted p target via (w, []) = Some (r, (w', l))"
  shows "connection_log (srv_network p) (permitted (srv_destinationACL p)) r l"
proof -
  have "\<forall>x \<in> set (addresses target). permitted (srv_destinationACL p) x"
    using approve_contract [OF assms(1) [unfolded approveDestination_def]] by blast
  from observe_dialApprovedUpstream [OF assms(2) _ this] show ?thesis by simp
qed

text \<open>An environment for the witness: every dial succeeds with connection 7, and nothing else happens.\<close>

definition demo_env :: "(unit, nat) net_env" where
  "demo_env =
     \<lparr>env_lookup = demo_lookup, env_ctx_done = (\<lambda>_. False), env_dial = (\<lambda>n a w. (Inr 7, w)), env_now = (\<lambda>_. 0),
      env_SetDeadline = (\<lambda>c t w. (None, w)), env_Close = (\<lambda>c w. w), env_Handshake = (\<lambda>c h w. (None, w)),
      env_Write = (\<lambda>c d w. ((int (length d), None), w)), env_Read = (\<lambda>c n w. (([], Some EOF), w)),
      env_cause = (\<lambda>_. None), env_stop_interrupt = (\<lambda>w. (True, w))\<rparr>"

definition demo_server :: Server where
  "demo_server =
     \<lparr>srv_config = defaultConfig, srv_authenticator = demo_basic, srv_proxyFunc = (\<lambda>_. Inr None), srv_network = ''tcp'',
      srv_tunnels = NewRegistry, srv_tunnelLimiter = newConcurrentLimiter 256 128, srv_destinationACL = demo_acl\<rparr>"

lemma demo_approveDestination:
  "approveDestination demo_env demo_server ''example.com:443'' =
     Inr \<lparr>original = ''example.com:443'', addresses = [''93.184.216.34:443'']\<rparr>"
  by (simp add: approveDestination_def demo_env_def demo_server_def demo_approve)

theorem upstream_connection_log_witness:
  "connection_log ''tcp'' (permitted demo_acl) (Inr (DirectConn (7 :: nat)))
     [Attempt ''tcp'' ''93.184.216.34:443'', Opened 7]"
proof -
  have n: "DialNetwork ''auto'' = Inr ''tcp''" by (simp add: DialNetwork_def)
  have "dialApprovedUpstream (observe demo_env) (\<lambda>_. None) (\<lambda>_. '''') (\<lambda>_. '''') demo_server
      \<lparr>original = ''example.com:443'', addresses = [''93.184.216.34:443'']\<rparr> '''' ((), []) =
      Some (Inr (DirectConn 7), ((), [Attempt ''tcp'' ''93.184.216.34:443'', Opened 7]))"
    by (simp add: dialApprovedUpstream_def demo_server_def defaultConfig_def n dialApprovedDestination_def
        dialApproved_def observe_def demo_env_def)
  from upstream_connection_log [OF demo_approveDestination this] show ?thesis by (simp add: demo_server_def)
qed

text \<open>An environment in which only writes change the observation \<open>out\<close>, and they append what they report.\<close>

definition only_writes :: "('w, 'c) net_env \<Rightarrow> ('w \<Rightarrow> string) \<Rightarrow> bool" where
  "only_writes env out \<longleftrightarrow>
     (\<forall>n a w. out (snd (env_dial env n a w)) = out w) \<and> (\<forall>c t w. out (snd (env_SetDeadline env c t w)) = out w) \<and>
     (\<forall>c h w. out (snd (env_Handshake env c h w)) = out w) \<and> (\<forall>w. out (snd (env_stop_interrupt env w)) = out w) \<and>
     (\<forall>c. reader_keeps out (env_Read env c)) \<and> (\<forall>c. io_writer (env_Write env c) out)"

lemma dial_loop_quiet:
  assumes "only_writes env out" and "dial_loop ctx_done (env_dial env) network as errs w = (r, w')"
  shows "out w' = out w"
  using assms(2)
proof (induction as arbitrary: errs w)
  case (Cons x as)
  obtain q v where q: "env_dial env network x w = (q, v)" by (metis surj_pair)
  have "out v = out w" using assms(1) q unfolding only_writes_def by (metis snd_conv)
  with Cons q show ?case by (auto simp: Let_def split: sum.splits if_splits)
qed auto

lemma dialDestination_quiet:
  assumes "only_writes env out" and "dialDestination env p a w = (r, w')"
  shows "out w' = out w"
  using assms(2) dial_loop_quiet [OF assms(1)]
  by (fastforce simp: dialDestination_def dial_def dialApproved_def split: sum.splits prod.splits)

lemma exchangeConnect_sends:
  assumes "only_writes env out" and "exchangeConnect env u target via conn w = Some (Inr t, w')"
  shows "out w' = out w @ buildConnectRequest target u via"
proof -
  obtain o1 s1 where wr: "writeAll (env_Write env conn) (buildConnectRequest target u via) w = (o1, s1)" by (metis surj_pair)
  have io: "io_writer (env_Write env conn) out" and rk: "reader_keeps out (env_Read env conn)"
    using assms(1) by (auto simp: only_writes_def)
  have all: "o1 = WroteAll" using assms(2) wr by (cases o1) (auto simp: exchangeConnect_def Let_def)
  with writeAll_out [OF io wr] have s1: "out s1 = out w @ buildConnectRequest target u via" by auto
  obtain q b s2 where rd: "readConnectResponse (env_Read env conn)
      \<lparr>buffered = [], buffered_err = None, buffer_size = 4096\<rparr> s1 = Some (q, b, s2)"
    using assms(2) wr all by (auto simp: exchangeConnect_def split: option.splits)
  obtain ok s3 where st: "env_stop_interrupt env s2 = (ok, s3)" by (metis surj_pair)
  obtain e s4 where dl: "env_SetDeadline env conn None s3 = (e, s4)" by (metis surj_pair)
  have "out s4 = out s1"
    using readConnectResponse_keeps [OF rd rk] assms(1) st dl unfolding only_writes_def by (metis snd_conv)
  moreover have "w' = s4"
    using assms(2) wr all rd st dl by (cases q; cases ok; cases e) (auto simp: exchangeConnect_def Let_def split: if_splits)
  ultimately show ?thesis using s1 by simp
qed

text \<open>
  C19: A tunnel through an upstream proxy is requested for the first approved address: the bytes sent
  on the connection before it is handed to the tunnel are exactly one CONNECT request for
  \<^verbatim>\<open>target.addresses[0]\<close>, an address the policy permits.  With private destinations disallowed that is
  the text of a checked IP address; with private destinations allowed it is the destination as the
  client wrote it, which the upstream proxy then resolves.
\<close>

theorem upstream_asked_for_checked_address:
  assumes "approveDestination env p address = Inr target"
    and "dialApprovedUpstream env parse url_String redacted p target via w = Some (Inr (ProxiedConn b), w')"
    and "only_writes env out"
  shows "\<exists>u selected asked. ParseProxyURL parse (url_String selected) = Inr u \<and>
           out w' = out w @ buildConnectRequest asked u via \<and>
           asked = hd (addresses target) \<and> permitted (srv_destinationACL p) asked \<and>
           (if allowPrivate (srv_destinationACL p) then asked = address
            else \<exists>ip portText. asked = JoinHostPort (Addr_String ip) portText \<and> checkDestinationIP ip = None)"
proof -
  note contract = approve_contract [OF assms(1) [unfolded approveDestination_def]]
  have asked: "addresses target = [address]" if "allowPrivate (srv_destinationACL p)"
  proof -
    obtain host portText port where "destination_parts address host portText port" "port \<notin> blockedPorts (srv_destinationACL p)"
      using approve_parts [OF assms(1) [unfolded approveDestination_def]] by blast
    from approve_private [OF this that] assms(1) show ?thesis by (auto simp: approveDestination_def)
  qed
  note body = assms(2) [unfolded dialApprovedUpstream_def Let_def]
  obtain selected where sel: "srv_proxyFunc p \<lparr>req_Method = '''',
      req_URL = empty_url\<lparr>url_Scheme := ''https'', url_Host := original target\<rparr>,
      req_ProtoMajor = 0, req_ProtoMinor = 0, req_Header = [], req_Host = '''', req_RemoteAddr = ''''\<rparr> = Inr (Some selected)"
    using body by (auto split: sum.splits option.splits prod.splits)
  obtain n where n: "DialNetwork (Network (srv_config p)) = Inr n" using body sel by (auto split: sum.splits)
  obtain u where u: "ParseProxyURL parse (url_String selected) = Inr u" using body sel n by (auto split: sum.splits)
  obtain a where a: "ProxyAddress u = Inr a" using body sel n u by (auto split: sum.splits)
  obtain q s1 where q: "dialDestination env p a w = (q, s1)" by (metis surj_pair)
  obtain c where c: "q = Inr c" using body sel n u a q by (auto split: sum.splits)
  obtain e s2 where d: "env_SetDeadline env (RawConn c)
      (Some (time_Add (env_now env s1) (ResponseHeaderTimeout (srv_config p)))) s1 = (e, s2)" by (metis surj_pair)
  have e: "e = None" using body sel n u a q c d by (auto split: option.splits)
  obtain x s3 where x: "secureUpstream env u c s2 = (x, s3)" by (metis surj_pair)
  obtain conn where conn: "x = Inr conn" using body sel n u a q c d e x by (auto split: sum.splits)
  have ne: "addresses target \<noteq> []" and ex: "exchangeConnect env u (addresses target ! 0) via conn s3 = Some (Inr (ProxiedConn b), w')"
    using body sel n u a q c d e x conn by (auto split: if_splits)
  have "out s3 = out s2" using x conn assms(3)
    by (auto simp: secureUpstream_def only_writes_def Let_def split: if_splits prod.splits option.splits) (metis snd_conv)+
  moreover have "out s2 = out s1" using d assms(3) unfolding only_writes_def by (metis snd_conv)
  moreover have "out s1 = out w" using dialDestination_quiet [OF assms(3) q] .
  ultimately have "out w' = out w @ buildConnectRequest (addresses target ! 0) u via"
    using exchangeConnect_sends [OF assms(3) ex] by simp
  moreover have ok: "permitted (srv_destinationACL p) (hd (addresses target))" using contract ne by simp
  moreover have "\<exists>ip portText. hd (addresses target) = JoinHostPort (Addr_String ip) portText \<and> checkDestinationIP ip = None"
    if "\<not> allowPrivate (srv_destinationACL p)" using ok that unfolding permitted_def by auto
  ultimately show ?thesis using u ne asked by (auto simp: hd_conv_nth)
qed

text \<open>
  A second environment: the world is what the proxy has yet to send and what it was sent; it answers
  200 with the first bytes of the tunnel in the same segment.
\<close>

definition proxied_env :: "(string list \<times> string, nat) net_env" where
  "proxied_env =
     \<lparr>env_lookup = demo_lookup, env_ctx_done = (\<lambda>_. False), env_dial = (\<lambda>n a w. (Inr 7, w)), env_now = (\<lambda>_. 0),
      env_SetDeadline = (\<lambda>c t w. (None, w)), env_Close = (\<lambda>c w. w), env_Handshake = (\<lambda>c h w. (None, w)),
      env_Write = (\<lambda>c d (cs, out). ((int (length d), None), (cs, out @ d))),
      env_Read = (\<lambda>c n (cs, out). case chunked n cs of (r, cs) \<Rightarrow> (r, (cs, out))),
      env_cause = (\<lambda>_. None), env_stop_interrupt = (\<lambda>w. (True, w))\<rparr>"

definition proxied_reply :: string where
  "proxied_reply = ''HTTP/1.1 200 OK'' @ crlf @ crlf @ ''hi''"

definition proxy_url :: url where
  "proxy_url = empty_url\<lparr>url_Scheme := ''http'', url_Host := ''example.com:443''\<rparr>"

lemma proxied_writes: "only_writes proxied_env snd"
  by (auto simp: only_writes_def proxied_env_def reader_keeps_def io_writer_def split: prod.splits)

lemma proxied_response:
  "readConnectResponse (env_Read proxied_env c) \<lparr>buffered = [], buffered_err = None, buffer_size = 4096\<rparr> ([proxied_reply], out) =
     Some (Inr 200, \<lparr>buffered = ''hi'', buffered_err = None, buffer_size = 4096\<rparr>, ([], out))"
proof -
  let ?read = "env_Read proxied_env c"
  let ?b = "\<lambda>s. \<lparr>buffered = s, buffered_err = None, buffer_size = 4096\<rparr>"
  have rd: "?read 4096 ([proxied_reply], out) = ((proxied_reply, None), ([], out))"
    by (simp add: proxied_env_def chunked_def proxied_reply_def crlf_def)
  have hundred: "(100 :: nat) = Suc 99" by simp
  have "fill ?read (Suc 99) (?b []) ([proxied_reply], out) = (?b proxied_reply, ([], out))"
    by (subst fill.simps) (simp add: rd, simp add: proxied_reply_def)
  then have f: "fill ?read 100 (?b []) ([proxied_reply], out) = (?b proxied_reply, ([], out))"
    using hundred by (simp only:)
  have cut: "Cut proxied_reply newline = Some (''HTTP/1.1 200 OK'' @ [carriage_return], crlf @ ''hi'')"
    "Cut (crlf @ ''hi'') newline = Some ([carriage_return], ''hi'')" by code_simp+
  have sl: "ReadSlice ?read (?b []) ([proxied_reply], out) =
      ((''HTTP/1.1 200 OK'' @ crlf, None), ?b (crlf @ ''hi''), ([], out))"
    by (simp add: ReadSlice.simps [of ?read "?b []"] ReadSlice.simps [of ?read "?b proxied_reply"] f cut) (simp add: crlf_def)
  have l1: "ReadLine ?read (?b []) ([proxied_reply], out) = (Inr (''HTTP/1.1 200 OK'', False), ?b (crlf @ ''hi''), ([], out))"
    by (simp add: ReadLine_def sl crlf_def Let_def ErrBufferFull_def)
  have l2: "ReadLine ?read (?b (crlf @ ''hi'')) ([], out) = (Inr ([], False), ?b ''hi'', ([], out))"
    by (simp add: ReadLine_def ReadSlice.simps [of ?read "?b (crlf @ ''hi'')"] cut Let_def)
  have code: "statusLineCode ''HTTP/1.1 200 OK'' = Inr 200" by code_simp
  show ?thesis
    by (simp add: readConnectResponse_def readLimitedLine_def readLimitedLine_loop.simps [of ?read "[]" _ "?b []"]
        readLimitedLine_loop.simps [of ?read "[]" _ "?b (crlf @ ''hi'')"] skipHeaders.simps [of ?read _ "?b (crlf @ ''hi'')"]
        l1 l2 code consumed_def maxConnectResponseHeaderBytes_def)
qed

theorem upstream_asked_for_checked_address_witness:
  "\<exists>b w'. dialApprovedUpstream proxied_env (\<lambda>_. Some proxy_url) (\<lambda>_. '''') (\<lambda>_. '''')
      (demo_server\<lparr>srv_proxyFunc := \<lambda>_. Inr (Some proxy_url)\<rparr>)
      \<lparr>original = ''example.com:443'', addresses = [''93.184.216.34:443'']\<rparr> '''' ([proxied_reply], []) =
      Some (Inr (ProxiedConn b), w') \<and> snd w' = buildConnectRequest ''93.184.216.34:443'' proxy_url ''''"
proof -
  let ?p = "demo_server\<lparr>srv_proxyFunc := \<lambda>_. Inr (Some proxy_url)\<rparr>"
  let ?d = "\<lparr>original = ''example.com:443'', addresses = [''93.184.216.34:443'']\<rparr>"
  have u: "ParseProxyURL (\<lambda>_. Some proxy_url) '''' = Inr proxy_url" "ProxyAddress proxy_url = Inr ''example.com:443''"
    "DialNetwork ''auto'' = Inr ''tcp''" "url_Scheme proxy_url \<noteq> ''https''" by code_simp+
  have net: "DialNetwork (Network (srv_config demo_server)) = Inr ''tcp''" by (simp add: demo_server_def defaultConfig_def u)
  have dd: "dialDestination proxied_env ?p ''example.com:443'' w = (Inr 7, w)" for w
    by (simp add: dialDestination_def dial_def dialApproved_def demo_server_def proxied_env_def demo_approve)
  have sd: "env_SetDeadline proxied_env c t w = (None, w)" "env_stop_interrupt proxied_env w = (True, w)" for c t w
    by (simp_all add: proxied_env_def)
  have wr: "writeAll (env_Write proxied_env c) d (cs, []) = (WroteAll, (cs, d))" if "d \<noteq> []" for c d cs
    using that by (subst writeAll.simps, simp add: proxied_env_def, subst writeAll.simps) simp
  have "buildConnectRequest ''93.184.216.34:443'' proxy_url '''' \<noteq> []" by (simp add: buildConnectRequest_def)
  then have ex: "exchangeConnect proxied_env proxy_url ''93.184.216.34:443'' '''' c ([proxied_reply], []) =
      Some (Inr (ProxiedConn (NewBufferedConn c \<lparr>buffered = ''hi'', buffered_err = None, buffer_size = 4096\<rparr>)),
        ([], buildConnectRequest ''93.184.216.34:443'' proxy_url ''''))" for c
    by (simp add: exchangeConnect_def wr proxied_response sd)
  have run: "\<exists>b w'. dialApprovedUpstream proxied_env (\<lambda>_. Some proxy_url) (\<lambda>_. '''') (\<lambda>_. '''') ?p ?d '''' ([proxied_reply], []) =
      Some (Inr (ProxiedConn b), w')"
    by (simp add: dialApprovedUpstream_def Let_def u net dd sd secureUpstream_def ex)
  then obtain b w' where r: "dialApprovedUpstream proxied_env (\<lambda>_. Some proxy_url) (\<lambda>_. '''') (\<lambda>_. '''') ?p ?d '''' ([proxied_reply], []) =
      Some (Inr (ProxiedConn b), w')" by blast
  have ap: "approveDestination proxied_env ?p ''example.com:443'' = Inr ?d"
    by (simp add: approveDestination_def proxied_env_def demo_server_def demo_approve)
  from upstream_asked_for_checked_address [OF ap r proxied_writes] u(1) r show ?thesis by auto
qed

text \<open>
  Every upstream the selection function can return is a URL that passed the upstream checks,
  also when it comes from the environment; \<^verbatim>\<open>direct\<close> never selects one, and a configured URL is
  selected for every request.
\<close>

theorem selected_upstream_checked:
  assumes "buildProxyFuncWithEnvironment parse url_String rawURL proxyFromEnvironment = Inr f"
  shows "(\<forall>r u. f r = Inr (Some u) \<longrightarrow> (\<exists>raw. ParseProxyURL parse raw = Inr u)) \<and>
         (rawURL = ''direct'' \<longrightarrow> f r = Inr None) \<and>
         (rawURL \<noteq> ''direct'' \<and> rawURL \<noteq> '''' \<longrightarrow> (\<exists>u. ParseProxyURL parse rawURL = Inr u \<and> f r = Inr (Some u)))"
  using assms
  by (auto simp: buildProxyFuncWithEnvironment_def DirectUpstream_def split: if_splits sum.splits option.splits)

theorem selected_upstream_checked_witness:
  "\<exists>f. buildProxyFuncWithEnvironment (\<lambda>_. Some proxy_url) (\<lambda>_. '''') ''http://example.com:443'' (\<lambda>_. Inr None) = Inr f \<and>
       f (demo_request '''') = Inr (Some proxy_url)"
proof -
  have u: "ParseProxyURL (\<lambda>_. Some proxy_url) ''http://example.com:443'' = Inr proxy_url" by code_simp
  then have "\<exists>f. buildProxyFuncWithEnvironment (\<lambda>_. Some proxy_url) (\<lambda>_. '''') ''http://example.com:443'' (\<lambda>_. Inr None) = Inr f"
    by (simp add: buildProxyFuncWithEnvironment_def DirectUpstream_def)
  then obtain f where f: "buildProxyFuncWithEnvironment (\<lambda>_. Some proxy_url) (\<lambda>_. '''') ''http://example.com:443'' (\<lambda>_. Inr None) = Inr f" ..
  from selected_upstream_checked [OF f, of "demo_request ''''"] f u show ?thesis by auto
qed

end
