(* ===== verification/Proxy_Server.thy ===== *)
theory Proxy_Server
  imports Upstream
begin

text \<open>
  The request handlers, \<^verbatim>\<open>internal/proxy/server.go\<close>, composed from the components below them.

  The mutable parts of the server (authenticator, tunnel registry, tunnel limiter) are passed and
  returned in the \<open>Server\<close> record; \<open>te_others\<close> is what other handlers did to it while this one was
  relaying a tunnel.  Parameters, besides \<open>net_env\<close>: hijacking and replying to the client,
  the relay (its behaviour is the subject of \<^verbatim>\<open>Tunnel_Relay\<close>), and \<^verbatim>\<open>http.Client.Do\<close>, which receives
  the transport's \<^verbatim>\<open>DialContext\<close>; the transport's other settings (pool sizes, timeouts, no
  compression, no redirects) only concern that parameter.  Debug log records, the flush before late
  trailers and the closing of the response body, whose errors are ignored, are left out.
\<close>

section \<open>Construction\<close>

definition NewServer ::
  "(string \<Rightarrow> url option) \<Rightarrow> (url \<Rightarrow> string) \<Rightarrow> (string \<Rightarrow> string) \<Rightarrow> (Request \<Rightarrow> err + url option) \<Rightarrow> Config \<Rightarrow> err + Server" where
  "NewServer parse url_String sum256 proxyFromEnvironment cfg =
     (case validateConfig parse cfg of
        (cfg, Some e) \<Rightarrow> Inl e
      | (cfg, None) \<Rightarrow>
          (case buildProxyFuncWithEnvironment parse url_String (UpstreamProxy cfg) proxyFromEnvironment of
             Inl e \<Rightarrow> Inl e
           | Inr proxyFunc \<Rightarrow>
               (case DialNetwork (Network cfg) of
                  Inl e \<Rightarrow> Inl e
                | Inr network \<Rightarrow>
                    Inr \<lparr>srv_config = cfg,
                         srv_authenticator = NewBasic sum256 (Username cfg) (Password cfg)
                           \<lparr>opt_LogSensitiveData = LogSensitiveData cfg, opt_MaxFailures = AuthMaxFailures cfg,
                            opt_FailureWindow = AuthFailureWindow cfg, opt_BlockDuration = AuthBlockDuration cfg\<rparr>,
                         srv_proxyFunc = proxyFunc,
                         srv_network = network,
                         srv_tunnels = NewRegistry,
                         srv_tunnelLimiter = newConcurrentLimiter (MaxTunnels cfg) (MaxTunnelsPerIP cfg),
                         srv_destinationACL = newDestinationACL cfg\<rparr>)))"

text \<open>The \<^verbatim>\<open>DialContext\<close> of the transport; \<open>ctx\<close> is the approved destination stored in the context.\<close>

definition transport_DialContext ::
  "('w, 'c) net_env \<Rightarrow> Server \<Rightarrow> approvedDestination option \<Rightarrow> string \<Rightarrow> 'w \<Rightarrow> (err + 'c) \<times> 'w" where
  "transport_DialContext env p ctx address w =
     (case ctx of
        Some approved \<Rightarrow>
          if matches approved address then dialApprovedDestination env p approved w
          else dialDestination env p address w
      | None \<Rightarrow> dialDestination env p address w)"

section \<open>Logging and error responses\<close>

definition requestURLForLog :: "(url \<Rightarrow> string) \<Rightarrow> Server \<Rightarrow> url \<Rightarrow> string" where
  "requestURLForLog url_String p u =
     (if LogSensitiveData (srv_config p) then url_String u
      else url_String (u\<lparr>url_User := None, url_RawQuery := '''', url_ForceQuery := False, url_Fragment := '''',
                         url_RawFragment := '''', url_Opaque := ''''\<rparr>))"

definition upstreamErrorStatus :: "err \<Rightarrow> int" where
  "upstreamErrorStatus e =
     (if errors_Is e DeadlineExceeded \<or> net_error_timeout e = Some True then StatusGatewayTimeout else StatusBadGateway)"

definition errorForLog :: "Server \<Rightarrow> err \<Rightarrow> log_value" where
  "errorForLog p e =
     (if LogSensitiveData (srv_config p) then LErr e else LStr (StatusText (upstreamErrorStatus e)))"

definition writeUpstreamError :: "ResponseWriter \<Rightarrow> err \<Rightarrow> ResponseWriter" where
  "writeUpstreamError rw e =
     (let statusCode = upstreamErrorStatus e in http_Error rw (StatusText statusCode) statusCode)"

definition writeDestinationError ::
  "(url \<Rightarrow> string) \<Rightarrow> Server \<Rightarrow> ResponseWriter \<Rightarrow> url \<Rightarrow> err \<Rightarrow> ResponseWriter \<times> log_entry list" where
  "writeDestinationError url_String p rw u e =
     (let logged = (''url'', LStr (requestURLForLog url_String p u)) in
      if errors_Is e errDestinationDenied then
        (let logError = (if LogSensitiveData (srv_config p) then LErr e else LStr (StatusText StatusForbidden)) in
         (http_Error rw (StatusText StatusForbidden) StatusForbidden,
          [Log LWarn ''Destination blocked'' [logged, (''error'', logError)]]))
      else
        (writeUpstreamError rw e, [Log LError ''Could not check destination'' [logged, (''error'', errorForLog p e)]]))"

section \<open>Plain HTTP\<close>

record HttpRequest = Request +
  in_Trailer :: header
  in_hasBody :: bool  \<comment> \<open>\<^verbatim>\<open>Body\<close> is neither \<^verbatim>\<open>nil\<close> nor \<^verbatim>\<open>http.NoBody\<close>\<close>

record OutRequest =
  out_Method :: string
  out_URL :: url
  out_Host :: string
  out_Header :: header
  out_Trailer :: header
  out_wrapsBody :: bool  \<comment> \<open>the body is wrapped in a \<^verbatim>\<open>privacyTrailerBody\<close>\<close>
  out_approved :: approvedDestination  \<comment> \<open>the value stored in the context\<close>

text \<open>A response: its trailers before and after the body was read, and how copying the body went.\<close>

record Response =
  resp_StatusCode :: int
  resp_ProtoMajor :: int
  resp_ProtoMinor :: int
  resp_Header :: header
  resp_Trailer :: header
  resp_lateTrailer :: header
  resp_copied :: string
  resp_copyErr :: "err option"

definition forwardedRequestURL :: "('a Request_scheme) \<Rightarrow> err + url" where
  "forwardedRequestURL request =
     (if Hostname (req_URL request) \<noteq> '''' then Inr (req_URL request)
      else if req_ProtoMajor request \<noteq> 2 \<or> req_Host request = '''' then Inl (New ''request destination host is empty'')
      else Inr ((req_URL request)\<lparr>url_Scheme := ''http'', url_Host := req_Host request\<rparr>))"

text \<open>The outgoing request of \<^verbatim>\<open>handleHTTP\<close>.\<close>

definition outboundRequest :: "Server \<Rightarrow> HttpRequest \<Rightarrow> url \<Rightarrow> approvedDestination \<Rightarrow> OutRequest" where
  "outboundRequest p r outboundURL approved =
     (let acceptsTrailers = headerValuesContainToken (Values (req_Header r) ''Te'') ''trailers'';
          privacy = PrivacyMode (srv_config p);
          h = removeHopByHopHeaders (req_Header r);
          h = (if privacy then removePrivacyHeaders h else h);
          h = (if acceptsTrailers then Set h ''Te'' ''trailers'' else h);
          h = (if \<not> privacy then appendVia h (req_ProtoMajor r) (req_ProtoMinor r) else h)
      in \<lparr>out_Method = req_Method r, out_URL = outboundURL, out_Host = url_Host outboundURL, out_Header = h,
          out_Trailer = (if privacy then removePrivacyHeaders (in_Trailer r) else in_Trailer r),
          out_wrapsBody = (privacy \<and> in_hasBody r), out_approved = approved\<rparr>)"

text \<open>
  The response as it is relayed: the header at the time of \<^verbatim>\<open>WriteHeader\<close>, and the writer at the end,
  whose header then also holds the trailers.
\<close>

definition relayResponse :: "Server \<Rightarrow> ResponseWriter \<Rightarrow> Response \<Rightarrow> header \<times> ResponseWriter \<times> log_entry list" where
  "relayResponse p rw response =
     (let privacy = PrivacyMode (srv_config p);
          h = removeHopByHopHeaders (resp_Header response);
          h = (if privacy then removePrivacyHeaders h
               else appendVia h (resp_ProtoMajor response) (resp_ProtoMinor response));
          trailer = (if privacy then removePrivacyHeaders (resp_Trailer response) else resp_Trailer response);
          wh = copyHeaders (rw_Header rw) h;
          (wh, announcedTrailers) = announceTrailers wh trailer;
          rw = WriteHeader (rw\<lparr>rw_Header := wh\<rparr>) (resp_StatusCode response);
          rw = rw\<lparr>rw_body := rw_body rw @ resp_copied response\<rparr>
      in
      case resp_copyErr response of
        Some e \<Rightarrow> (wh, rw, [Log LError ''Error copying response body''
                     [(''written'', LInt (int (length (resp_copied response)))), (''error'', LErr e)]])
      | None \<Rightarrow>
          let late = (if privacy then removePrivacyHeaders (resp_lateTrailer response) else resp_lateTrailer response) in
          if late \<noteq> [] then (wh, rw\<lparr>rw_Header := copyTrailers (rw_Header rw) late announcedTrailers\<rparr>, [])
          else (wh, rw, []))"

type_synonym ('w, 'c) http_Do =
  "(approvedDestination option \<Rightarrow> string \<Rightarrow> 'w \<Rightarrow> (err + 'c) \<times> 'w) \<Rightarrow> OutRequest \<Rightarrow> 'w \<Rightarrow> (err + Response) \<times> 'w"

definition handleHTTP ::
  "('w, 'c) net_env \<Rightarrow> ('w, 'c) http_Do \<Rightarrow> (url \<Rightarrow> string) \<Rightarrow> Server \<Rightarrow> ResponseWriter \<Rightarrow> HttpRequest \<Rightarrow> 'w
     \<Rightarrow> ResponseWriter \<times> log_entry list \<times> 'w" where
  "handleHTTP env httpClient_Do url_String p rw r w =
     (let url = (''url'', LStr (requestURLForLog url_String p (req_URL r)));
          invalid = (http_Error rw (StatusText StatusBadRequest) StatusBadRequest,
                     [Log LWarn ''Invalid HTTP destination'' [url]], w)
      in
      case forwardedRequestURL r of Inl _ \<Rightarrow> invalid | Inr outboundURL \<Rightarrow>
      (case requestDestination outboundURL of Inl _ \<Rightarrow> invalid | Inr destination \<Rightarrow>
       (case approveDestination env p destination of
          Inl e \<Rightarrow> (case writeDestinationError url_String p rw (req_URL r) e of (rw, l) \<Rightarrow> (rw, l, w))
        | Inr approved \<Rightarrow>
            (case httpClient_Do (transport_DialContext env p) (outboundRequest p r outboundURL approved) w of
               (Inl e, w) \<Rightarrow>
                 if errors_Is e errDestinationDenied
                 then (case writeDestinationError url_String p rw (req_URL r) e of (rw, l) \<Rightarrow> (rw, l, w))
                 else (writeUpstreamError rw e,
                       [Log LError ''Error forwarding request'' [(''error'', errorForLog p e), url]], w)
             | (Inr response, w) \<Rightarrow>
                 (case relayResponse p rw response of (_, rw, l) \<Rightarrow> (rw, l, w))))))"

section \<open>Tunnels\<close>

record 'w tun_env =
  te_hijacker :: bool                                   \<comment> \<open>the writer implements \<^verbatim>\<open>http.Hijacker\<close>\<close>
  te_Hijack :: "'w \<Rightarrow> (err + nat) \<times> 'w"                 \<comment> \<open>the client connection\<close>
  te_SetDeadline :: "nat \<Rightarrow> 'w \<Rightarrow> 'w"                   \<comment> \<open>clearing it; errors are only logged\<close>
  te_WriteString :: "string \<Rightarrow> 'w \<Rightarrow> err option \<times> 'w"
  te_Flush :: "'w \<Rightarrow> err option \<times> 'w"
  te_body :: nat                                        \<comment> \<open>the request body of an HTTP/2 stream\<close>
  te_Close :: "nat \<Rightarrow> 'w \<Rightarrow> 'w"                         \<comment> \<open>closing the client side\<close>
  te_Relay :: "nat \<Rightarrow> nat tunnel_conn \<Rightarrow> duration \<Rightarrow> 'w \<Rightarrow> 'w"
  te_RelayStream :: "nat tunnel_conn \<Rightarrow> duration \<Rightarrow> 'w \<Rightarrow> 'w"
  te_others :: "Server \<Rightarrow> Server"

fun tunnel_raw :: "'c tunnel_conn \<Rightarrow> 'c" where
  "tunnel_raw (DirectConn c) = c"
| "tunnel_raw (ProxiedConn b) = raw_conn (bc_Conn b)"

fun tunnel_Close :: "('w, 'c) net_env \<Rightarrow> 'c tunnel_conn \<Rightarrow> 'w \<Rightarrow> 'w" where
  "tunnel_Close env (DirectConn c) w = env_Close env (RawConn c) w"
| "tunnel_Close env (ProxiedConn b) w = env_Close env (bc_Conn b) w"

definition viaForRequest :: "Server \<Rightarrow> header \<Rightarrow> int \<Rightarrow> int \<Rightarrow> string" where
  "viaForRequest p h protoMajor protoMinor =
     (if PrivacyMode (srv_config p) then '''' else forwardedVia h protoMajor protoMinor)"

definition connectionEstablished :: string where
  "connectionEstablished = ''HTTP/1.1 200 Connection Established'' @ crlf @ crlf"

definition relayHTTP1Tunnel ::
  "('w, nat) net_env \<Rightarrow> 'w tun_env \<Rightarrow> Server \<Rightarrow> nat tunnel_conn \<Rightarrow> 'w \<Rightarrow> Server \<times> log_entry list \<times> 'w" where
  "relayHTTP1Tunnel env te p destination w =
     (case te_Hijack te w of
        (Inl e, w) \<Rightarrow>
          (p, [Log LError ''Client connection hijack error'' [(''error'', LErr e)]], tunnel_Close env destination w)
      | (Inr clientConn, w) \<Rightarrow>
          let w = te_SetDeadline te clientConn w in
          (case Track clientConn (tunnel_raw destination) (srv_tunnels p) of
             (tunnels, None) \<Rightarrow>
               (p\<lparr>srv_tunnels := tunnels\<rparr>, [], te_Close te clientConn (tunnel_Close env destination w))
           | (tunnels, Some pair) \<Rightarrow>
               let p = p\<lparr>srv_tunnels := tunnels\<rparr>;
                   w = (case te_WriteString te connectionEstablished w of
                          (Some _, w) \<Rightarrow> w
                        | (None, w) \<Rightarrow>
                            (case te_Flush te w of
                               (Some _, w) \<Rightarrow> w
                             | (None, w) \<Rightarrow> te_Relay te clientConn destination (TunnelIdleTimeout (srv_config p)) w));
                   p = te_others te p;
                   w = te_Close te clientConn w;
                   w = tunnel_Close env destination w
               in (p\<lparr>srv_tunnels := untrack pair (srv_tunnels p)\<rparr>, [], w)))"

definition relayHTTP2Tunnel ::
  "('w, nat) net_env \<Rightarrow> 'w tun_env \<Rightarrow> Server \<Rightarrow> ResponseWriter \<Rightarrow> nat tunnel_conn \<Rightarrow> 'w
     \<Rightarrow> Server \<times> ResponseWriter \<times> 'w" where
  "relayHTTP2Tunnel env te p rw destination w =
     (case Track (te_body te) (tunnel_raw destination) (srv_tunnels p) of
        (tunnels, None) \<Rightarrow>
          (p\<lparr>srv_tunnels := tunnels\<rparr>, http_Error rw (StatusText StatusServiceUnavailable) StatusServiceUnavailable,
           tunnel_Close env destination w)
      | (tunnels, Some pair) \<Rightarrow>
          let p = p\<lparr>srv_tunnels := tunnels\<rparr>;
              rw = WriteHeader rw StatusOK;
              w = (case te_Flush te w of
                     (Some _, w) \<Rightarrow> w
                   | (None, w) \<Rightarrow> te_RelayStream te destination (TunnelIdleTimeout (srv_config p)) w);
              p = te_others te p;
              w = te_Close te (te_body te) w;
              w = tunnel_Close env destination w
          in (p\<lparr>srv_tunnels := untrack pair (srv_tunnels p)\<rparr>, rw, w))"

text \<open>The part of \<^verbatim>\<open>handleTunneling\<close> that runs while a slot of the tunnel limiter is held.\<close>

definition tunnelWithSlot ::
  "('w, nat) net_env \<Rightarrow> 'w tun_env \<Rightarrow> (string \<Rightarrow> url option) \<Rightarrow> (url \<Rightarrow> string) \<Rightarrow> (url \<Rightarrow> string) \<Rightarrow> Server \<Rightarrow> ResponseWriter \<Rightarrow> Request
     \<Rightarrow> 'w \<Rightarrow> (Server \<times> ResponseWriter \<times> log_entry list \<times> 'w) option" where
  "tunnelWithSlot env te parse url_String redacted p rw r w =
     (case approveDestination env p (req_Host r) of
        Inl e \<Rightarrow> (case writeDestinationError url_String p rw (req_URL r) e of (rw, l) \<Rightarrow> Some (p, rw, l, w))
      | Inr approved \<Rightarrow>
          if req_ProtoMajor r = 1 \<and> \<not> te_hijacker te then
            Some (p, http_Error rw ''hijacking not supported'' StatusInternalServerError,
                  [Log LError ''Hijacking not supported'' []], w)
          else if req_ProtoMajor r \<noteq> 1 \<and> req_ProtoMajor r \<noteq> 2 then
            Some (p, http_Error rw (StatusText StatusHTTPVersionNotSupported) StatusHTTPVersionNotSupported, [], w)
          else
            (case dialApprovedUpstream env parse url_String redacted p approved
                    (viaForRequest p (req_Header r) (req_ProtoMajor r) (req_ProtoMinor r)) w of
               None \<Rightarrow> None
             | Some (Inl e, w) \<Rightarrow>
                 if errors_Is e errDestinationDenied
                 then (case writeDestinationError url_String p rw (req_URL r) e of (rw, l) \<Rightarrow> Some (p, rw, l, w))
                 else Some (p, writeUpstreamError rw e,
                            [Log LError (''Can'' @ [CHR 0x27] @ ''t connect to host'') [(''host'', LStr (req_Host r)), (''error'', errorForLog p e)]], w)
             | Some (Inr destination, w) \<Rightarrow>
                 if req_ProtoMajor r = 2 then
                   (case relayHTTP2Tunnel env te p rw destination w of (p, rw, w) \<Rightarrow> Some (p, rw, [], w))
                 else
                   (case relayHTTP1Tunnel env te p destination w of (p, l, w) \<Rightarrow> Some (p, rw, l, w))))"

definition handleTunneling ::
  "('w, nat) net_env \<Rightarrow> 'w tun_env \<Rightarrow> (string \<Rightarrow> url option) \<Rightarrow> (url \<Rightarrow> string) \<Rightarrow> (url \<Rightarrow> string) \<Rightarrow> Server \<Rightarrow> ResponseWriter \<Rightarrow> Request
     \<Rightarrow> 'w \<Rightarrow> (Server \<times> ResponseWriter \<times> log_entry list \<times> 'w) option" where
  "handleTunneling env te parse url_String redacted p rw r w =
     (case validateTargetAddress (req_Host r) of
        Some _ \<Rightarrow>
          Some (p, http_Error rw (StatusText StatusBadRequest) StatusBadRequest,
                [Log LWarn ''Invalid CONNECT target'' [(''host'', LStr (req_Host r))]], w)
      | None \<Rightarrow>
          (case tryAcquire (srv_tunnelLimiter p) (addressHost (req_RemoteAddr r)) of
             None \<Rightarrow>
               Some (p, http_Error (rw\<lparr>rw_Header := Set (rw_Header rw) ''Retry-After'' ''1''\<rparr>)
                          (StatusText StatusTooManyRequests) StatusTooManyRequests,
                     [Log LWarn ''Tunnel limit exceeded'' [(''remote'', LStr (req_RemoteAddr r))]], w)
           | Some (slot, limiter) \<Rightarrow>
               (case tunnelWithSlot env te parse url_String redacted (p\<lparr>srv_tunnelLimiter := limiter\<rparr>) rw r w of
                  None \<Rightarrow> None
                | Some (p, rw, l, w) \<Rightarrow>
                    Some (p\<lparr>srv_tunnelLimiter := fst (release (srv_tunnelLimiter p) slot)\<rparr>, rw, l, w))))"

section \<open>Dispatch\<close>

definition ServeHTTP ::
  "('w, nat) net_env \<Rightarrow> 'w tun_env \<Rightarrow> ('w, nat) http_Do \<Rightarrow> (string \<Rightarrow> url option) \<Rightarrow> (url \<Rightarrow> string) \<Rightarrow> (url \<Rightarrow> string) \<Rightarrow>
   (string \<Rightarrow> string) \<Rightarrow> time \<Rightarrow> time \<Rightarrow> Server \<Rightarrow> ResponseWriter \<Rightarrow> HttpRequest \<Rightarrow> 'w
     \<Rightarrow> (Server \<times> ResponseWriter \<times> log_entry list \<times> 'w) option" where
  "ServeHTTP env te httpClient_Do parse url_String redacted sum256 t1 t2 p rw r w =
     (let received = Log LInfo ''Received request''
            [(''method'', LStr (req_Method r)), (''url'', LStr (requestURLForLog url_String p (req_URL r)))]
      in
      case Authenticate sum256 (srv_authenticator p) t1 t2 rw (Request.truncate r) of
        ((ok, rw, a), l) \<Rightarrow>
          let p = p\<lparr>srv_authenticator := a\<rparr> in
          if \<not> ok then Some (p, rw, received # l, w)
          else if req_Method r = ''CONNECT'' then
            (case handleTunneling env te parse url_String redacted p rw (Request.truncate r) w of
               None \<Rightarrow> None
             | Some (p, rw, l', w) \<Rightarrow> Some (p, rw, received # l @ l', w))
          else
            (case handleHTTP env httpClient_Do url_String p rw r w of
               (rw, l', w) \<Rightarrow> Some (p, rw, received # l @ l', w)))"

section \<open>Case analysis\<close>

lemma handleTunneling_cases:
  assumes "handleTunneling env te parse url_String redacted p rw r w = Some (p', rw', l, w')"
  obtains "p' = p" "w' = w"
  | s lim p1 where "tryAcquire (srv_tunnelLimiter p) (addressHost (req_RemoteAddr r)) = Some (s, lim)"
      "tunnelWithSlot env te parse url_String redacted (p\<lparr>srv_tunnelLimiter := lim\<rparr>) rw r w = Some (p1, rw', l, w')"
      "p' = p1\<lparr>srv_tunnelLimiter := fst (release (srv_tunnelLimiter p1) s)\<rparr>"
proof (cases "validateTargetAddress (req_Host r)")
  case None
  show ?thesis
  proof (cases "tryAcquire (srv_tunnelLimiter p) (addressHost (req_RemoteAddr r))")
    case (Some sl)
    with assms None that(2) show ?thesis by (cases sl) (auto simp: handleTunneling_def split: option.splits)
  qed (use assms None that(1) in \<open>simp add: handleTunneling_def\<close>)
qed (use assms that(1) in \<open>simp add: handleTunneling_def\<close>)

lemma ServeHTTP_cases:
  assumes "ServeHTTP env te Do parse url_String redacted sum256 t1 t2 p rw r w = Some (p', rw', l, w')"
  obtains (refused) a la where "Authenticate sum256 (srv_authenticator p) t1 t2 rw (Request.truncate r) = ((False, rw', a), la)"
      "p' = p\<lparr>srv_authenticator := a\<rparr>" "w' = w"
      "l = Log LInfo ''Received request'' [(''method'', LStr (req_Method r)), (''url'', LStr (requestURLForLog url_String p (req_URL r)))] # la"
  | (tunnel) rw1 a la l1 where "Authenticate sum256 (srv_authenticator p) t1 t2 rw (Request.truncate r) = ((True, rw1, a), la)"
      "req_Method r = ''CONNECT''"
      "handleTunneling env te parse url_String redacted (p\<lparr>srv_authenticator := a\<rparr>) rw1 (Request.truncate r) w = Some (p', rw', l1, w')"
      "l = Log LInfo ''Received request'' [(''method'', LStr (req_Method r)), (''url'', LStr (requestURLForLog url_String p (req_URL r)))] # la @ l1"
  | (forward) rw1 a la l1 where "Authenticate sum256 (srv_authenticator p) t1 t2 rw (Request.truncate r) = ((True, rw1, a), la)"
      "req_Method r \<noteq> ''CONNECT''"
      "handleHTTP env Do url_String (p\<lparr>srv_authenticator := a\<rparr>) rw1 r w = (rw', l1, w')" "p' = p\<lparr>srv_authenticator := a\<rparr>"
      "l = Log LInfo ''Received request'' [(''method'', LStr (req_Method r)), (''url'', LStr (requestURLForLog url_String p (req_URL r)))] # la @ l1"
proof -
  obtain ok rw1 a la where A: "Authenticate sum256 (srv_authenticator p) t1 t2 rw (Request.truncate r) = ((ok, rw1, a), la)"
    by (metis surj_pair)
  show ?thesis
  proof (cases ok)
    case False
    with assms A refused show ?thesis by (simp add: ServeHTTP_def Let_def)
  next
    case True
    show ?thesis
    proof (cases "req_Method r = ''CONNECT''")
      case True
      with assms A \<open>ok\<close> tunnel show ?thesis by (auto simp: ServeHTTP_def Let_def split: option.splits)
    next
      case False
      obtain rw2 l2 w2 where h: "handleHTTP env Do url_String (p\<lparr>srv_authenticator := a\<rparr>) rw1 r w = (rw2, l2, w2)"
        by (metis surj_pair)
      show ?thesis
        by (rule forward [OF A [unfolded eqTrueI [OF \<open>ok\<close>]] False])
           (use assms A \<open>ok\<close> False h in \<open>auto simp: ServeHTTP_def Let_def\<close>)
    qed
  qed
qed

section \<open>A concrete run\<close>

text \<open>A client side that accepts everything, an origin server that is reached through the transport, and a request to it.\<close>

definition demo_tun :: "'w tun_env" where
  "demo_tun =
     \<lparr>te_hijacker = True, te_Hijack = (\<lambda>w. (Inr 3, w)), te_SetDeadline = (\<lambda>c w. w), te_WriteString = (\<lambda>d w. (None, w)),
      te_Flush = (\<lambda>w. (None, w)), te_body = 4, te_Close = (\<lambda>c w. w), te_Relay = (\<lambda>c d t w. w),
      te_RelayStream = (\<lambda>d t w. w), te_others = (\<lambda>p. p)\<rparr>"

definition demo_origin :: Response where
  "demo_origin =
     \<lparr>resp_StatusCode = 200, resp_ProtoMajor = 1, resp_ProtoMinor = 1,
      resp_Header = [(''Server'', [''demo'']), (''Connection'', [''close''])], resp_Trailer = [], resp_lateTrailer = [],
      resp_copied = ''hello'', resp_copyErr = None\<rparr>"

definition demo_Do :: "('w, 'c) http_Do" where
  "demo_Do connect r w =
     (case connect (Some (out_approved r)) (out_Host r) w of (Inl e, w) \<Rightarrow> (Inl e, w) | (Inr c, w) \<Rightarrow> (Inr demo_origin, w))"

definition demo_get :: "string \<Rightarrow> HttpRequest" where
  "demo_get authorization =
     \<lparr>req_Method = ''GET'', req_URL = empty_url\<lparr>url_Scheme := ''http'', url_Host := ''example.com:443'', url_RawQuery := ''token=1''\<rparr>,
      req_ProtoMajor = 1, req_ProtoMinor = 1,
      req_Header = [(''Proxy-Authorization'', [authorization]), (''Accept'', [''text/html''])],
      req_Host = ''example.com:443'', req_RemoteAddr = ''192.0.2.7:40000'', in_Trailer = [], in_hasBody = False\<rparr>"

lemma demo_dial:
  assumes "srv_proxyFunc p = (\<lambda>_. Inr None)" and "srv_config p = defaultConfig" and "srv_network p = ''tcp''"
  shows "dialApprovedUpstream (observe demo_env) parse url_String redacted p
     \<lparr>original = ''example.com:443'', addresses = [''93.184.216.34:443'']\<rparr> via ((), []) =
     Some (Inr (DirectConn 7), ((), [Attempt ''tcp'' ''93.184.216.34:443'', Opened 7]))"
proof -
  have n: "DialNetwork ''auto'' = Inr ''tcp''" by (simp add: DialNetwork_def)
  show ?thesis
    by (simp add: dialApprovedUpstream_def assms defaultConfig_def n dialApprovedDestination_def
        dialApproved_def observe_def demo_env_def)
qed

lemma demo_approves:
  assumes "srv_destinationACL p = demo_acl" and "srv_network p = ''tcp''" and "env_lookup env = demo_lookup"
  shows "approveDestination env p ''example.com:443'' = Inr \<lparr>original = ''example.com:443'', addresses = [''93.184.216.34:443'']\<rparr>"
  using demo_approve by (simp add: approveDestination_def assms)

definition demo_slotted :: concurrentLimiter where
  "demo_slotted = \<lparr>maxTotal = 256, maxPerKey = 128, total = 1, perKey = [''192.0.2.7'' \<mapsto> 1]\<rparr>"

lemma demo_acquire:
  "tryAcquire (newConcurrentLimiter 256 128) (addressHost ''192.0.2.7:40000'') =
     Some (\<lparr>rel_key = ''192.0.2.7'', rel_done = False\<rparr>, demo_slotted)"
  "release demo_slotted \<lparr>rel_key = ''192.0.2.7'', rel_done = False\<rparr> =
     (newConcurrentLimiter 256 128, \<lparr>rel_key = ''192.0.2.7'', rel_done = True\<rparr>)"
proof -
  have "limiter_key (addressHost ''192.0.2.7:40000'') = ''192.0.2.7''" by code_simp
  then show "tryAcquire (newConcurrentLimiter 256 128) (addressHost ''192.0.2.7:40000'') =
     Some (\<lparr>rel_key = ''192.0.2.7'', rel_done = False\<rparr>, demo_slotted)"
    by (simp add: tryAcquire_def newConcurrentLimiter_def perKey_at_def demo_slotted_def Let_def)
  show "release demo_slotted \<lparr>rel_key = ''192.0.2.7'', rel_done = False\<rparr> =
     (newConcurrentLimiter 256 128, \<lparr>rel_key = ''192.0.2.7'', rel_done = True\<rparr>)"
    by (simp add: release_def newConcurrentLimiter_def perKey_at_def demo_slotted_def Let_def)
qed

lemma demo_tunnel_run:
  assumes "srv_proxyFunc p = (\<lambda>_. Inr None)" and "srv_config p = defaultConfig" and "srv_network p = ''tcp''"
    and "srv_destinationACL p = demo_acl" and "srv_tunnelLimiter p = newConcurrentLimiter 256 128" and "srv_tunnels p = NewRegistry"
  shows "handleTunneling (observe demo_env) (demo_tun\<lparr>te_others := others\<rparr>) parse url_String redacted p rw (demo_request authorization) ((), []) =
     (let q = others (p\<lparr>srv_tunnelLimiter := demo_slotted, srv_tunnels := fst (Track 3 7 NewRegistry)\<rparr>) in
      Some (q\<lparr>srv_tunnels := untrack 0 (srv_tunnels q),
              srv_tunnelLimiter := fst (release (srv_tunnelLimiter q) \<lparr>rel_key = ''192.0.2.7'', rel_done = False\<rparr>)\<rparr>, rw, [],
            ((), [Attempt ''tcp'' ''93.184.216.34:443'', Opened 7, Closed 7])))"
proof -
  let ?p = "p\<lparr>srv_tunnelLimiter := demo_slotted\<rparr>"
  have v: "validateTargetAddress ''example.com:443'' = None" by code_simp
  have look: "env_lookup (observe demo_env) = demo_lookup" by (simp add: observe_def demo_env_def)
  let ?q = "others (?p\<lparr>srv_tunnels := fst (Track 3 7 NewRegistry)\<rparr>)"
  obtain tr where t: "Track 3 7 NewRegistry = (tr, Some 0)" by (simp add: Track_def NewRegistry_def Let_def)
  have "tunnelWithSlot (observe demo_env) (demo_tun\<lparr>te_others := others\<rparr>) parse url_String redacted ?p rw (demo_request authorization) ((), []) =
     Some (?q\<lparr>srv_tunnels := untrack 0 (srv_tunnels ?q)\<rparr>, rw, [],
           ((), [Attempt ''tcp'' ''93.184.216.34:443'', Opened 7, Closed 7]))"
    using demo_approves [of ?p "observe demo_env", OF _ _ look] demo_dial [of ?p] assms
    by (simp add: tunnelWithSlot_def demo_request_def demo_tun_def relayHTTP1Tunnel_def t
        Let_def observe_def demo_env_def)
  with v demo_acquire assms show ?thesis
    by (simp add: handleTunneling_def demo_request_def Let_def)
qed

lemma demo_tun_alone: "demo_tun\<lparr>te_others := \<lambda>p. p\<rparr> = demo_tun"
  by (simp add: demo_tun_def)

lemma demo_tunnel:
  "handleTunneling (observe demo_env) demo_tun parse url_String redacted demo_server rw (demo_request authorization) ((), []) =
     Some (demo_server\<lparr>srv_tunnels := NewRegistry\<lparr>next_pair := 1\<rparr>\<rparr>, rw, [],
           ((), [Attempt ''tcp'' ''93.184.216.34:443'', Opened 7, Closed 7]))"
proof -
  have "untrack 0 (fst (Track 3 7 NewRegistry)) = NewRegistry\<lparr>next_pair := 1\<rparr>"
    by (simp add: Track_def NewRegistry_def untrack_def Let_def)
  moreover have "srv_tunnelLimiter demo_server = newConcurrentLimiter 256 128" by (simp add: demo_server_def)
  ultimately show ?thesis
    using demo_tunnel_run [of demo_server "\<lambda>p. p" parse url_String redacted rw authorization] demo_acquire(2)
    by (simp add: demo_server_def demo_tun_alone)
qed

lemma demo_get_auth:
  "\<exists>fl. Authenticate id demo_basic 100 100 rw (Request.truncate (demo_get ''Basic YWxpY2U6czNjcmV0'')) =
     ((True, rw, demo_basic\<lparr>authFailures := fl\<rparr>), [])"
proof -
  let ?r = "Request.truncate (demo_get ''Basic YWxpY2U6czNjcmV0'')"
  have k: "CanonicalHeaderKey ''Proxy-Authorization'' = ''Proxy-Authorization''" by code_simp
  then have g: "Get (req_Header ?r) ''Proxy-Authorization'' = ''Basic YWxpY2U6czNjcmV0''"
    by (simp add: demo_get_def Request.truncate_def Get_def Values_def)
  then have "presents ?r ''alice'' ''s3cret''" using demo_presents by (simp add: presents_def demo_header)
  then have "fst (fst (Authenticate id demo_basic 100 100 rw ?r))"
    unfolding Authenticate_accepts demo_fresh by (auto simp: demo_basic_sel)
  from Authenticate_accept_effect [OF demo_basic_sel(1) this] show ?thesis by blast
qed

lemma demo_get_destination:
  "forwardedRequestURL (demo_get a) = Inr (req_URL (demo_get a))" "requestDestination (req_URL (demo_get a)) = Inr ''example.com:443''"
  "url_Host (req_URL (demo_get a)) = ''example.com:443''"
proof -
  let ?u = "empty_url\<lparr>url_Scheme := ''http'', url_Host := ''example.com:443'', url_RawQuery := ''token=1''\<rparr>"
  have "Hostname ?u = ''example.com''" "requestDestination ?u = Inr ''example.com:443''" by code_simp+
  then show "forwardedRequestURL (demo_get a) = Inr (req_URL (demo_get a))"
    "requestDestination (req_URL (demo_get a)) = Inr ''example.com:443''" "url_Host (req_URL (demo_get a)) = ''example.com:443''"
    by (simp_all add: forwardedRequestURL_def demo_get_def)
qed

lemma demo_get_do:
  assumes "srv_network p = ''tcp''"
  shows "demo_Do (transport_DialContext (observe demo_env) p) (outboundRequest p (demo_get a) (req_URL (demo_get a))
      \<lparr>original = ''example.com:443'', addresses = [''93.184.216.34:443'']\<rparr>) ((), []) =
     (Inr demo_origin, ((), [Attempt ''tcp'' ''93.184.216.34:443'', Opened 7]))"
proof -
  have "matches \<lparr>original = ''example.com:443'', addresses = [''93.184.216.34:443'']\<rparr> ''example.com:443''" by code_simp
  with assms show ?thesis
    by (simp add: demo_Do_def transport_DialContext_def outboundRequest_def Let_def demo_get_destination
      dialApprovedDestination_def dialApproved_def observe_def demo_env_def)
qed

lemma demo_get_run:
  "\<exists>fl rw' l. ServeHTTP (observe demo_env) demo_tun demo_Do parse url_String redacted id 100 100 demo_server newResponseWriter
     (demo_get ''Basic YWxpY2U6czNjcmV0'') ((), []) =
     Some (demo_server\<lparr>srv_authenticator := demo_basic\<lparr>authFailures := fl\<rparr>\<rparr>, rw', l,
           ((), [Attempt ''tcp'' ''93.184.216.34:443'', Opened 7]))"
proof -
  obtain fl where A: "Authenticate id demo_basic 100 100 newResponseWriter (Request.truncate (demo_get ''Basic YWxpY2U6czNjcmV0'')) =
     ((True, newResponseWriter, demo_basic\<lparr>authFailures := fl\<rparr>), [])" using demo_get_auth by blast
  let ?p = "demo_server\<lparr>srv_authenticator := demo_basic\<lparr>authFailures := fl\<rparr>\<rparr>"
  have look: "env_lookup (observe demo_env) = demo_lookup" by (simp add: observe_def demo_env_def)
  have p: "srv_network ?p = ''tcp''" "srv_destinationACL ?p = demo_acl" by (simp_all add: demo_server_def)
  obtain h rw' l where rr: "relayResponse ?p newResponseWriter demo_origin = (h, rw', l)" by (metis surj_pair)
  have "handleHTTP (observe demo_env) demo_Do url_String ?p newResponseWriter (demo_get ''Basic YWxpY2U6czNjcmV0'') ((), []) =
     (rw', l, ((), [Attempt ''tcp'' ''93.184.216.34:443'', Opened 7]))"
    using demo_approves [OF p(2,1) look] demo_get_do [OF p(1)] rr by (simp add: handleHTTP_def demo_get_destination Let_def)
  moreover have "srv_authenticator demo_server = demo_basic" "req_Method (demo_get x) = ''GET''" for x
    by (simp_all add: demo_server_def demo_get_def)
  ultimately show ?thesis using A by (auto simp: ServeHTTP_def Let_def)
qed

end
