(* ===== verification/Server_Connections.thy ===== *)
theory Server_Connections
  imports Proxy_Server
begin

text \<open>
  Which connections serving a request opens and closes, and which requests get that far: the
  handlers of \<^verbatim>\<open>Proxy_Server\<close> run over an environment that logs dial attempts, opened and closed
  connections.
\<close>

section \<open>Connections of a request\<close>

text \<open>
  What is assumed of the outside here: \<^verbatim>\<open>http.Client.Do\<close> opens connections only by calling the
  transport's \<^verbatim>\<open>DialContext\<close> with the request's context, and the operations on the client side
  open none (they may close some).
\<close>

definition dials_through :: "('w \<times> 'c net_event list, 'c) http_Do \<Rightarrow> bool" where
  "dials_through Do \<longleftrightarrow>
     (\<forall>I dial r s. (\<forall>a v. I (snd v) \<longrightarrow> I (snd (snd (dial (Some (out_approved r)) a v)))) \<longrightarrow>
        I (snd s) \<longrightarrow> I (snd (snd (Do dial r s))))"

definition closes_only :: "'w \<times> 'c net_event list \<Rightarrow> 'w \<times> 'c net_event list \<Rightarrow> bool" where
  "closes_only s s' \<longleftrightarrow> (\<exists>cs. snd s' = snd s @ map Closed cs)"

definition client_side_closes_only :: "('w \<times> nat net_event list) tun_env \<Rightarrow> bool" where
  "client_side_closes_only te \<longleftrightarrow>
     (\<forall>s. closes_only s (snd (te_Hijack te s))) \<and> (\<forall>c s. closes_only s (te_SetDeadline te c s)) \<and>
     (\<forall>d s. closes_only s (snd (te_WriteString te d s))) \<and> (\<forall>s. closes_only s (snd (te_Flush te s))) \<and>
     (\<forall>c s. closes_only s (te_Close te c s)) \<and> (\<forall>c d t s. closes_only s (te_Relay te c d t s)) \<and>
     (\<forall>d t s. closes_only s (te_RelayStream te d t s))"

lemma closes_only_trans [trans]: "closes_only s t \<Longrightarrow> closes_only t u \<Longrightarrow> closes_only s u"
  unfolding closes_only_def by (metis append_assoc map_append)

lemma closes_only_refl [simp]: "closes_only s s"
  by (auto simp: closes_only_def intro: exI [of _ "[]"])

lemma client_sideD:
  assumes "client_side_closes_only te"
  shows "te_Hijack te s = (r, s') \<Longrightarrow> closes_only s s'" "te_WriteString te x s = (e, s') \<Longrightarrow> closes_only s s'"
    "te_Flush te s = (e, s') \<Longrightarrow> closes_only s s'" "closes_only s (te_SetDeadline te c s)" "closes_only s (te_Close te c s)"
    "closes_only s (te_Relay te c d t s)" "closes_only s (te_RelayStream te d t s)"
  using assms unfolding client_side_closes_only_def by (metis snd_conv)+

text \<open>The log grows by closes only, and \<open>c\<close> is among them.\<close>

definition closes :: "nat \<Rightarrow> 'w \<times> nat net_event list \<Rightarrow> 'w \<times> nat net_event list \<Rightarrow> bool" where
  "closes c s s' \<longleftrightarrow> (\<exists>cs. snd s' = snd s @ map Closed cs \<and> c \<in> set cs)"

lemma closes_trans:
  "closes_only s t \<Longrightarrow> closes c t u \<Longrightarrow> closes c s u" "closes c s t \<Longrightarrow> closes_only t u \<Longrightarrow> closes c s u"
  unfolding closes_def closes_only_def by (metis append_assoc map_append set_append Un_iff)+

lemma closes_tunnel_Close: "closes (tunnel_raw d) s (tunnel_Close (observe env) d s)"
  by (cases d) (auto simp: closes_def observe_log(4) intro: exI [of _ "[_]"])

lemma relayHTTP1Tunnel_closes:
  assumes "client_side_closes_only te" and "relayHTTP1Tunnel (observe env) te p d s = (p', l, s')"
  shows "closes (tunnel_raw d) s s'"
proof -
  note te = client_sideD [OF assms(1)]
  obtain q s1 where h: "te_Hijack te s = (q, s1)" by (metis surj_pair)
  show ?thesis
  proof (cases q)
    case (Inl e)
    with assms(2) h show ?thesis
      using closes_trans(1) [OF te(1) [OF h] closes_tunnel_Close] by (auto simp: relayHTTP1Tunnel_def)
  next
    case (Inr c)
    let ?s2 = "te_SetDeadline te c s1"
    have s2: "closes_only s ?s2" by (rule closes_only_trans [OF te(1) [OF h] te(4)])
    obtain reg pair where t: "Track c (tunnel_raw d) (srv_tunnels p) = (reg, pair)" by (metis surj_pair)
    obtain e3 s3 where w: "te_WriteString te connectionEstablished ?s2 = (e3, s3)" by (metis surj_pair)
    obtain e4 s4 where f: "te_Flush te s3 = (e4, s4)" by (metis surj_pair)
    have s3: "closes_only s s3" by (rule closes_only_trans [OF s2 te(2) [OF w]])
    have s4: "closes_only s s4" by (rule closes_only_trans [OF s3 te(3) [OF f]])
    have fin: "closes (tunnel_raw d) s (tunnel_Close (observe env) d (te_Close te c v))" if "closes_only s v" for v
      by (rule closes_trans(1) [OF closes_only_trans [OF that te(5)] closes_tunnel_Close])
    have bad: "closes (tunnel_raw d) s (te_Close te c (tunnel_Close (observe env) d ?s2))"
      by (rule closes_trans(2) [OF closes_trans(1) [OF s2 closes_tunnel_Close] te(5)])
    show ?thesis
      using assms(2) h Inr t w f bad fin [OF s3] fin [OF s4] fin [OF closes_only_trans [OF s4 te(6)]]
      by (cases pair; cases e3; cases e4) (auto simp: relayHTTP1Tunnel_def Let_def)
  qed
qed

lemma relayHTTP2Tunnel_closes:
  assumes "client_side_closes_only te" and "relayHTTP2Tunnel (observe env) te p rw d s = (p', rw', s')"
  shows "closes (tunnel_raw d) s s'"
proof -
  note te = client_sideD [OF assms(1)]
  obtain reg pair where t: "Track (te_body te) (tunnel_raw d) (srv_tunnels p) = (reg, pair)" by (metis surj_pair)
  obtain e s1 where f: "te_Flush te s = (e, s1)" by (metis surj_pair)
  have fin: "closes (tunnel_raw d) s (tunnel_Close (observe env) d (te_Close te (te_body te) v))" if "closes_only s v" for v
    by (rule closes_trans(1) [OF closes_only_trans [OF that te(5)] closes_tunnel_Close])
  show ?thesis
    using assms(2) t f closes_tunnel_Close [of d s env] fin [OF te(3) [OF f]] fin [OF closes_only_trans [OF te(3) [OF f] te(7)]]
    by (cases pair; cases e) (auto simp: relayHTTP2Tunnel_def Let_def)
qed

text \<open>The log of one CONNECT request: permitted attempts, then at most one connection, which gets closed.\<close>

definition tunnel_log :: "string \<Rightarrow> (string \<Rightarrow> bool) \<Rightarrow> nat net_event list \<Rightarrow> bool" where
  "tunnel_log network ok l \<longleftrightarrow>
     (\<exists>tries rest. l = tries @ rest \<and> attempts_only network ok tries \<and>
        (rest = [] \<or> (\<exists>c cs. rest = Opened c # map Closed cs \<and> c \<in> set cs)))"

lemma tunnel_log_intros:
  "attempts_only network ok tries \<Longrightarrow> tunnel_log network ok tries"
  "attempts_only network ok tries \<Longrightarrow> c \<in> set cs \<Longrightarrow> tunnel_log network ok (tries @ Opened c # map Closed cs)"
  unfolding tunnel_log_def by blast+

lemma tunnel_log_failed: "connection_log network ok (Inl e) l \<Longrightarrow> tunnel_log network ok l"
  using tunnel_log_intros(2) [of network ok _ _ "[_]"] by (auto simp: connection_log_def intro: tunnel_log_intros(1))

lemma tunnel_log_relayed:
  assumes "connection_log network ok (Inr d) (snd s)" and "closes (tunnel_raw d) s s'"
  shows "tunnel_log network ok (snd s')"
  using assms by (cases d) (auto simp: connection_log_def closes_def intro: tunnel_log_intros(2))

lemma observe_env [simp]: "env_lookup (observe env) = env_lookup env"
  by (simp add: observe_def)

lemma approveDestination_observe [simp]: "approveDestination (observe env) p a = approveDestination env p a"
  by (simp add: approveDestination_def)

lemma tunnelWithSlot_log:
  assumes "client_side_closes_only te"
    and "tunnelWithSlot (observe env) te parse url_String redacted p rw r (w, []) = Some (p', rw', l, s')"
  shows "tunnel_log (srv_network p) (permitted (srv_destinationACL p)) (snd s')"
proof -
  note body = assms(2) [unfolded tunnelWithSlot_def approveDestination_observe]
  have nil: "tunnel_log n ok []" for n ok by (simp add: tunnel_log_def)
  show ?thesis
  proof (cases "approveDestination env p (req_Host r)")
    case (Inl e)
    with body nil show ?thesis by (auto split: prod.splits)
  next
    case (Inr target)
    let ?via = "viaForRequest p (req_Header r) (req_ProtoMajor r) (req_ProtoMinor r)"
    have perm: "\<forall>x \<in> set (addresses target). permitted (srv_destinationACL p) x"
      using approve_contract [OF Inr [unfolded approveDestination_def]] by blast
    show ?thesis
    proof (cases "dialApprovedUpstream (observe env) parse url_String redacted p target ?via (w, [])")
      case None
      with body Inr nil show ?thesis by (auto split: if_splits)
    next
      case (Some qs)
      obtain q s1 where qs: "qs = (q, s1)" by (cases qs)
      have log: "connection_log (srv_network p) (permitted (srv_destinationACL p)) q (snd s1)"
        using observe_dialApprovedUpstream [OF Some [unfolded qs] _ perm] by simp
      show ?thesis
      proof (cases q)
        case (Inl e)
        with body Inr Some qs nil tunnel_log_failed [OF log [unfolded Inl]] show ?thesis
          by (auto split: if_splits prod.splits)
      next
        case (Inr d)
        obtain p1 l1 s2 where r1: "relayHTTP1Tunnel (observe env) te p d s1 = (p1, l1, s2)" by (metis surj_pair)
        obtain p2 rw2 s3 where r2: "relayHTTP2Tunnel (observe env) te p rw d s1 = (p2, rw2, s3)" by (metis surj_pair)
        note rel = tunnel_log_relayed [OF log [unfolded Inr]]
        show ?thesis
          using body \<open>approveDestination env p (req_Host r) = Inr target\<close> Some qs Inr r1 r2 nil
            rel [OF relayHTTP1Tunnel_closes [OF assms(1) r1]] rel [OF relayHTTP2Tunnel_closes [OF assms(1) r2]]
          by (auto split: if_splits)
      qed
    qed
  qed
qed

lemma handleTunneling_log:
  assumes "client_side_closes_only te"
    and "handleTunneling (observe env) te parse url_String redacted p rw r (w, []) = Some (p', rw', l, s')"
  shows "tunnel_log (srv_network p) (permitted (srv_destinationACL p)) (snd s')"
proof (cases "validateTargetAddress (req_Host r)")
  case None
  show ?thesis
  proof (cases "tryAcquire (srv_tunnelLimiter p) (addressHost (req_RemoteAddr r))")
    case None
    with assms(2) \<open>validateTargetAddress (req_Host r) = None\<close> show ?thesis
      by (auto simp: handleTunneling_def intro: tunnel_log_intros(1))
  next
    case (Some sl)
    obtain slot lim where sl: "sl = (slot, lim)" by (cases sl)
    then obtain p1 rw1 l1 where t: "tunnelWithSlot (observe env) te parse url_String redacted (p\<lparr>srv_tunnelLimiter := lim\<rparr>) rw r (w, [])
        = Some (p1, rw1, l1, s')"
      using assms(2) None Some by (auto simp: handleTunneling_def split: option.splits)
    from tunnelWithSlot_log [OF assms(1) t] show ?thesis by simp
  qed
qed (use assms(2) in \<open>auto simp: handleTunneling_def intro: tunnel_log_intros(1)\<close>)

definition attempts_within :: "string \<Rightarrow> (string \<Rightarrow> bool) \<Rightarrow> 'c net_event list \<Rightarrow> bool" where
  "attempts_within network ok l \<longleftrightarrow> (\<forall>n a. Attempt n a \<in> set l \<longrightarrow> n = network \<and> ok a)"

lemma attempts_within_append [simp]:
  "attempts_within network ok (l @ l') \<longleftrightarrow> attempts_within network ok l \<and> attempts_within network ok l'"
  "attempts_within network ok []" "attempts_within network ok (Opened c # l) = attempts_within network ok l"
  "attempts_within network ok (map Closed cs)"
  by (auto simp: attempts_within_def)

lemma attempts_only_within: "attempts_only network ok l \<Longrightarrow> attempts_within network ok l"
  by (auto simp: attempts_only_def attempts_within_def)

lemma tunnel_log_within: "tunnel_log network ok l \<Longrightarrow> attempts_within network ok l"
  by (auto simp: tunnel_log_def intro: attempts_only_within)

lemma transport_within:
  assumes "approveDestination env p a = Inr approved"
    and "attempts_within (srv_network p) (permitted (srv_destinationACL p)) (snd s)"
  shows "attempts_within (srv_network p) (permitted (srv_destinationACL p))
     (snd (snd (transport_DialContext (observe env) p (Some approved) address s)))"
proof -
  have perm: "\<forall>x \<in> set (addresses approved). permitted (srv_destinationACL p) x"
    using approve_contract [OF assms(1) [unfolded approveDestination_def]] by blast
  have new: "attempts_within n ok (case r of Inr c \<Rightarrow> [Opened c] | Inl _ \<Rightarrow> [])" for n ok and r :: "err + 'b"
    by (cases r) auto
  obtain r1 s1 where d1: "dialApprovedDestination (observe env) p approved s = (r1, s1)" by (metis surj_pair)
  obtain r2 s2 where d2: "dialDestination (observe env) p address s = (r2, s2)" by (metis surj_pair)
  show ?thesis
    using observe_dialApproved [OF d1 [unfolded dialApprovedDestination_def] perm] observe_dialDestination [OF d2]
      assms(2) new d1 d2
    by (auto simp: transport_DialContext_def dest!: attempts_only_within)
qed

lemma handleHTTP_within:
  assumes "dials_through Do" and "handleHTTP (observe env) Do url_String p rw r (w, []) = (rw', l, s')"
  shows "attempts_within (srv_network p) (permitted (srv_destinationACL p)) (snd s')"
proof (cases "\<exists>u a approved. forwardedRequestURL r = Inr u \<and> requestDestination u = Inr a \<and> approveDestination env p a = Inr approved")
  case True
  then obtain u a approved where ok: "forwardedRequestURL r = Inr u" "requestDestination u = Inr a"
    "approveDestination env p a = Inr approved" by blast
  obtain q s1 where d: "Do (transport_DialContext (observe env) p) (outboundRequest p r u approved) (w, []) = (q, s1)"
    by (metis surj_pair)
  have "out_approved (outboundRequest p r u approved) = approved" by (simp add: outboundRequest_def Let_def)
  then have "attempts_within (srv_network p) (permitted (srv_destinationACL p)) (snd s1)"
    using assms(1) [unfolded dials_through_def, rule_format, of "attempts_within (srv_network p) (permitted (srv_destinationACL p))"
        "transport_DialContext (observe env) p" "outboundRequest p r u approved" "(w, [])"] transport_within [OF ok(3)] d
    by simp
  moreover have "s' = s1" using assms(2) ok d by (auto simp: handleHTTP_def Let_def split: sum.splits if_splits prod.splits)
  ultimately show ?thesis by simp
next
  case False
  then have "s' = (w, [])" using assms(2) by (auto simp: handleHTTP_def Let_def split: sum.splits prod.splits)
  then show ?thesis by simp
qed

lemma ServeHTTP_within:
  assumes "ServeHTTP (observe env) te Do parse url_String redacted sum256 t1 t2 p rw r (w, []) = Some (p', rw', l, s')"
    and "dials_through Do" and "client_side_closes_only te"
  shows "attempts_within (srv_network p) (permitted (srv_destinationACL p)) (snd s')"
  using assms(1)
proof (cases rule: ServeHTTP_cases)
  case (tunnel rw1 a la l1)
  from tunnel_log_within [OF handleTunneling_log [OF assms(3) tunnel(3)]] show ?thesis by simp
next
  case (forward rw1 a la l1)
  from handleHTTP_within [OF assms(2) forward(3)] show ?thesis by simp
qed simp

section \<open>Properties\<close>

lemma demo_client_side: "client_side_closes_only demo_tun"
  by (simp add: client_side_closes_only_def demo_tun_def)

lemma demo_dials_through: "dials_through demo_Do"
  unfolding dials_through_def
proof (intro allI impI)
  fix I :: "'c net_event list \<Rightarrow> bool" and d :: "approvedDestination option \<Rightarrow> string \<Rightarrow> 'a \<times> 'c net_event list \<Rightarrow> (err + 'c) \<times> 'a \<times> 'c net_event list"
    and r :: OutRequest and s :: "'a \<times> 'c net_event list"
  assume "\<forall>a v. I (snd v) \<longrightarrow> I (snd (snd (d (Some (out_approved r)) a v)))" and "I (snd s)"
  then have i: "I (snd (snd (d (Some (out_approved r)) (out_Host r) s)))" by blast
  obtain q v where "d (Some (out_approved r)) (out_Host r) s = (q, v)" by (metis surj_pair)
  with i show "I (snd (snd (demo_Do d r s)))" by (cases q) (simp_all add: demo_Do_def)
qed

text \<open>
  C1: Whatever a client sends and whatever name resolution, the upstream proxy and the origin
  answer, serving a request dials only the server's network and only addresses the destination
  policy permits, on the forwarding path, the direct tunnel and the upstream tunnel alike.
\<close>

theorem serve_contacts_only_permitted:
  assumes "ServeHTTP (observe env) te Do parse url_String redacted sum256 t1 t2 p rw r (w, []) = Some (p', rw', l, (w', events))"
    and "dials_through Do" and "client_side_closes_only te" and "Attempt n a \<in> set events"
  shows "n = srv_network p \<and> permitted (srv_destinationACL p) a"
  using ServeHTTP_within [OF assms(1-3)] assms(4) by (simp add: attempts_within_def)

theorem serve_contacts_only_permitted_witness:
  "\<exists>p' rw' l events. ServeHTTP (observe demo_env) demo_tun demo_Do (\<lambda>_. None) (\<lambda>_. '''') (\<lambda>_. '''') id 100 100 demo_server newResponseWriter
     (demo_get ''Basic YWxpY2U6czNjcmV0'') ((), []) = Some (p', rw', l, ((), events)) \<and>
     Attempt ''tcp'' ''93.184.216.34:443'' \<in> set events \<and> permitted demo_acl ''93.184.216.34:443''"
proof -
  obtain p' rw' l where run: "ServeHTTP (observe demo_env) demo_tun demo_Do (\<lambda>_. None) (\<lambda>_. '''') (\<lambda>_. '''') id 100 100 demo_server newResponseWriter
     (demo_get ''Basic YWxpY2U6czNjcmV0'') ((), []) = Some (p', rw', l, ((), [Attempt ''tcp'' ''93.184.216.34:443'', Opened 7]))"
    using demo_get_run by blast
  have "permitted demo_acl ''93.184.216.34:443''"
    using serve_contacts_only_permitted [OF run demo_dials_through demo_client_side, of "''tcp''" "''93.184.216.34:443''"]
    by (simp add: demo_server_def)
  with run show ?thesis by auto
qed

text \<open>
  C3: A CONNECT request leaves no connection behind: whatever fails on the way, at most one
  connection is opened, after attempts at permitted addresses only, and it has been closed when the
  handler returns.
\<close>

theorem tunnel_leaves_nothing_open:
  assumes "handleTunneling (observe env) te parse url_String redacted p rw r (w, []) = Some (p', rw', l, (w', events))"
    and "client_side_closes_only te"
  shows "(\<forall>c. Opened c \<in> set events \<longrightarrow> Closed c \<in> set events) \<and>
         length (filter (\<lambda>e. \<exists>c. e = Opened c) events) \<le> 1 \<and>
         (\<forall>n a. Attempt n a \<in> set events \<longrightarrow> n = srv_network p \<and> permitted (srv_destinationACL p) a)"
proof -
  have "tunnel_log (srv_network p) (permitted (srv_destinationACL p)) events"
    using handleTunneling_log [OF assms(2,1)] by simp
  then obtain tries rest where e: "events = tries @ rest" and t: "attempts_only (srv_network p) (permitted (srv_destinationACL p)) tries"
    and r: "rest = [] \<or> (\<exists>c cs. rest = Opened c # map Closed cs \<and> c \<in> set cs)" by (auto simp: tunnel_log_def)
  have "\<forall>c. Opened c \<notin> set tries" "filter (\<lambda>e. \<exists>c. e = Opened c) tries = []" "filter (\<lambda>e. \<exists>c. e = Opened c) (map Closed cs) = []" for cs
    using t by (auto simp: attempts_only_def filter_empty_conv)
  then show ?thesis using r t by (auto simp: e attempts_only_def)
qed

theorem tunnel_leaves_nothing_open_witness:
  "\<exists>p' rw' l events. handleTunneling (observe demo_env) demo_tun (\<lambda>_. None) (\<lambda>_. '''') (\<lambda>_. '''') demo_server newResponseWriter
     (demo_request '''') ((), []) = Some (p', rw', l, ((), events)) \<and> Opened 7 \<in> set events \<and> Closed 7 \<in> set events"
  using demo_tunnel [of "\<lambda>_. None" "\<lambda>_. ''''" "\<lambda>_. ''''" newResponseWriter "''''"]
    tunnel_leaves_nothing_open [OF demo_tunnel [of "\<lambda>_. None" "\<lambda>_. ''''" "\<lambda>_. ''''" newResponseWriter "''''"] demo_client_side] by auto

text \<open>
  C2: With authentication enabled, a request can reach the network, the tunnel registry or the
  tunnel limiter only with the configured credentials and while its client is not blocked; any
  other request is answered 407 or 429 and changes nothing but the failure counters: the stored
  hashes, the settings and the rest of the server stay, and the counters are those after the query
  for a block, with one failure recorded when the client is not blocked and sent credentials.
\<close>

theorem only_authenticated_served:
  assumes "ServeHTTP env te Do parse url_String redacted sum256 t1 t2 p rw r w = Some (p', rw', l, w')"
    and "enabled (srv_authenticator p)" and "rw_status rw = None"
  shows "(fst (retryAfter (authFailures (srv_authenticator p)) t1 (clientKey (req_RemoteAddr r))) \<le> 0 \<and>
           (\<exists>user pass. presents (Request.truncate r) user pass \<and> sum256 user = usernameHash (srv_authenticator p) \<and>
              sum256 pass = passwordHash (srv_authenticator p))) \<or>
         (w' = w \<and> refusal_ok rw' \<and>
           p' = p\<lparr>srv_authenticator := (srv_authenticator p)
                    \<lparr>authFailures := refused_counters (srv_authenticator p) t1 t2 (Request.truncate r)\<rparr>\<rparr>)"
proof -
  have acc: "fst (retryAfter (authFailures (srv_authenticator p)) t1 (clientKey (req_RemoteAddr r))) \<le> 0 \<and>
           (\<exists>user pass. presents (Request.truncate r) user pass \<and> sum256 user = usernameHash (srv_authenticator p) \<and>
              sum256 pass = passwordHash (srv_authenticator p))"
    if "Authenticate sum256 (srv_authenticator p) t1 t2 rw (Request.truncate r) = ((True, rw1, a), la)" for rw1 a la
    using Authenticate_accepts [of sum256 "srv_authenticator p" t1 t2 rw "Request.truncate r"] that assms(2)
    by (simp add: Request.truncate_def)
  show ?thesis
    using assms(1)
  proof (cases rule: ServeHTTP_cases)
    case (refused a la)
    with Authenticate_response [OF assms(3) refused(1)] Authenticate_refuse_effect [OF refused(1)] show ?thesis by auto
  qed (use acc in blast)+
qed

theorem only_authenticated_served_witness:
  "\<exists>p' rw' l. ServeHTTP demo_env demo_tun demo_Do (\<lambda>_. None) (\<lambda>_. '''') (\<lambda>_. '''') id 100 100 demo_server newResponseWriter
     (demo_get '''') () = Some (p', rw', l, ()) \<and> refusal_ok rw' \<and>
     p' = demo_server\<lparr>srv_authenticator := demo_basic\<lparr>authFailures := refused_counters demo_basic 100 100 (Request.truncate (demo_get ''''))\<rparr>\<rparr>"
proof -
  let ?r = "demo_get ''''"
  have k: "CanonicalHeaderKey ''Proxy-Authorization'' = ''Proxy-Authorization''" by code_simp
  then have g: "Get (req_Header (Request.truncate ?r)) ''Proxy-Authorization'' = ''''"
    by (simp add: demo_get_def Request.truncate_def Get_def Values_def)
  have a: "srv_authenticator demo_server = demo_basic" by (simp add: demo_server_def)
  obtain p' rw' l where run: "ServeHTTP demo_env demo_tun demo_Do (\<lambda>_. None) (\<lambda>_. '''') (\<lambda>_. '''') id 100 100 demo_server newResponseWriter
     ?r () = Some (p', rw', l, ())"
    by (simp add: ServeHTTP_def a Authenticate_def g demo_basic_sel demo_fresh Let_def)
  have np: "\<not> presents (Request.truncate ?r) user pass" for user pass unfolding presents_def g by simp
  have "refusal_ok rw' \<and> p' = demo_server\<lparr>srv_authenticator := demo_basic\<lparr>authFailures :=
      refused_counters demo_basic 100 100 (Request.truncate ?r)\<rparr>\<rparr>"
    using only_authenticated_served [OF run] np by (simp add: a demo_basic_sel newResponseWriter_def)
  with run show ?thesis by blast
qed

end
