(* ===== verification/Server_State.thy ===== *)
theory Server_State
  imports Proxy_Server
begin

text \<open>
  The server's state: what \<^verbatim>\<open>NewServer\<close> establishes, that serving a request keeps it whatever other
  handlers do meanwhile, and that a tunnel gives its slot and its registration back.
\<close>

section \<open>The server's state\<close>

text \<open>The tunnel limiter accounts for exactly the slots \<open>rs\<close>, within the configured limits.\<close>

definition tunnel_slots :: "Server \<Rightarrow> releaser list \<Rightarrow> bool" where
  "tunnel_slots p rs \<longleftrightarrow>
     limiter_sys_inv (MaxTunnels (srv_config p)) (MaxTunnelsPerIP (srv_config p))
       \<lparr>sys_limiter = srv_tunnelLimiter p, sys_releasers = rs\<rparr>"

definition server_ok :: "(string \<Rightarrow> url option) \<Rightarrow> Server \<Rightarrow> bool" where
  "server_ok parse p \<longleftrightarrow>
     config_valid parse (srv_config p) \<and> DialNetwork (Network (srv_config p)) = Inr (srv_network p) \<and>
     srv_destinationACL p = newDestinationACL (srv_config p) \<and> registry_ok (srv_tunnels p) \<and> (\<exists>rs. tunnel_slots p rs)"

text \<open>
  What other handlers do to the server while a tunnel is relayed, as steps on the server and the list
  of all slots handed out so far: acquire a slot, release any slot but the \<open>i\<close>-th, which is this
  tunnel's, track a tunnel, release a registration, close the registry, and count authentication
  failures.  The other fields are fixed after construction.
\<close>

inductive other_step :: "nat \<Rightarrow> Server \<times> releaser list \<Rightarrow> Server \<times> releaser list \<Rightarrow> bool" for i where
  o_acquire: "tryAcquire (srv_tunnelLimiter q) key = Some (s, lim) \<Longrightarrow>
     other_step i (q, rs) (q\<lparr>srv_tunnelLimiter := lim\<rparr>, rs @ [s])"
| o_release: "j < length rs \<Longrightarrow> j \<noteq> i \<Longrightarrow> release (srv_tunnelLimiter q) (rs ! j) = (lim, s) \<Longrightarrow>
     other_step i (q, rs) (q\<lparr>srv_tunnelLimiter := lim\<rparr>, rs[j := s])"
| o_track: "other_step i (q, rs) (q\<lparr>srv_tunnels := fst (Track c d (srv_tunnels q))\<rparr>, rs)"
| o_untrack: "other_step i (q, rs) (q\<lparr>srv_tunnels := untrack k (srv_tunnels q)\<rparr>, rs)"
| o_close: "other_step i (q, rs) (q\<lparr>srv_tunnels := fst (CloseAll_begin (srv_tunnels q))\<rparr>, rs)"
| o_auth: "other_step i (q, rs) (q\<lparr>srv_authenticator := (srv_authenticator q)\<lparr>authFailures := fl\<rparr>\<rparr>, rs)"

text \<open>The interference \<open>te_others\<close> is made of such steps, any number of them in any order.\<close>

definition others_ok :: "'w tun_env \<Rightarrow> bool" where
  "others_ok te \<longleftrightarrow>
     (\<forall>q rs s. tunnel_slots q (rs @ [s]) \<longrightarrow>
        (\<exists>rs'. (other_step (length rs))\<^sup>*\<^sup>* (q, rs @ [s]) (te_others te q, rs')))"

definition without :: "nat \<Rightarrow> 'a list \<Rightarrow> 'a list" where
  "without i xs = take i xs @ drop (Suc i) xs"

lemma Track_pair: "snd (Track c d r) = (if closing r then None else Some (next_pair r))"
  by (simp add: Track_def Let_def)

text \<open>What a tunnel handler does to the server while it holds its slot.\<close>

definition tunnel_effect :: "'w tun_env \<Rightarrow> Server \<Rightarrow> Server \<Rightarrow> bool" where
  "tunnel_effect te p p' \<longleftrightarrow>
     p' = p \<or>
     (\<exists>c d. let q = p\<lparr>srv_tunnels := fst (Track c d (srv_tunnels p))\<rparr>; q' = te_others te q in
        (closing (srv_tunnels p) \<and> p' = q) \<or>
        (\<not> closing (srv_tunnels p) \<and> p' = q'\<lparr>srv_tunnels := untrack (next_pair (srv_tunnels p)) (srv_tunnels q')\<rparr>))"

lemma tunnel_effect_track:
  assumes "Track c d (srv_tunnels p) = (rg, pair)"
    and "pair = None \<Longrightarrow> p' = p\<lparr>srv_tunnels := rg\<rparr>"
    and "\<And>i. pair = Some i \<Longrightarrow> let q = te_others te (p\<lparr>srv_tunnels := rg\<rparr>) in p' = q\<lparr>srv_tunnels := untrack i (srv_tunnels q)\<rparr>"
  shows "tunnel_effect te p p'"
proof -
  have "pair = (if closing (srv_tunnels p) then None else Some (next_pair (srv_tunnels p)))" "fst (Track c d (srv_tunnels p)) = rg"
    using Track_pair [of c d "srv_tunnels p"] assms(1) by simp_all
  with assms(2,3) show ?thesis
    unfolding tunnel_effect_def by (intro disjI2 exI [of _ c] exI [of _ d]) (auto simp: Let_def split: if_splits)
qed

lemma relayHTTP1Tunnel_effect:
  assumes "relayHTTP1Tunnel env te p d w = (p', l, w')"
  shows "tunnel_effect te p p'"
proof -
  obtain q w1 where h: "te_Hijack te w = (q, w1)" by (metis surj_pair)
  show ?thesis
  proof (cases q)
    case (Inr c)
    obtain rg pair where t: "Track c (tunnel_raw d) (srv_tunnels p) = (rg, pair)" by (metis surj_pair)
    show ?thesis
      by (rule tunnel_effect_track [OF t]) (use assms h Inr t in \<open>auto simp: relayHTTP1Tunnel_def Let_def\<close>)
  qed (use assms h in \<open>auto simp: relayHTTP1Tunnel_def tunnel_effect_def\<close>)
qed

lemma relayHTTP2Tunnel_effect:
  assumes "relayHTTP2Tunnel env te p rw d w = (p', rw', w')"
  shows "tunnel_effect te p p'"
proof -
  obtain rg pair where t: "Track (te_body te) (tunnel_raw d) (srv_tunnels p) = (rg, pair)" by (metis surj_pair)
  show ?thesis
    by (rule tunnel_effect_track [OF t]) (use assms t in \<open>auto simp: relayHTTP2Tunnel_def Let_def\<close>)
qed

lemma tunnelWithSlot_effect:
  assumes "tunnelWithSlot env te parse url_String redacted p rw r w = Some (p', rw', l, w')"
  shows "tunnel_effect te p p'"
  using assms
  by (auto simp: tunnelWithSlot_def intro: relayHTTP1Tunnel_effect relayHTTP2Tunnel_effect
      split: sum.splits option.splits prod.splits if_splits) (auto simp: tunnel_effect_def)

lemma tunnel_slots_fields [simp]:
  "tunnel_slots (p\<lparr>srv_tunnels := t\<rparr>) rs = tunnel_slots p rs"
  "tunnel_slots (p\<lparr>srv_authenticator := a\<rparr>) rs = tunnel_slots p rs"
  by (simp_all add: tunnel_slots_def)

lemma tunnel_slots_acquire:
  assumes "tunnel_slots p rs" and "tryAcquire (srv_tunnelLimiter p) key = Some (s, lim)"
  shows "tunnel_slots (p\<lparr>srv_tunnelLimiter := lim\<rparr>) (rs @ [s])"
  using inv_acquire [OF assms(1) [unfolded tunnel_slots_def], of key s lim] assms(2) by (simp add: tunnel_slots_def)

lemma tunnel_slots_done:
  assumes "tunnel_slots p (rs @ [s] @ ts)" and "rel_done s"
  shows "tunnel_slots p (rs @ ts)"
proof -
  have u: "in_use (rs @ [s] @ ts) = in_use (rs @ ts)" "\<And>k. in_use_by k (rs @ [s] @ ts) = in_use_by k (rs @ ts)"
    using assms(2) by (simp_all add: in_use_def in_use_by_def)
  have "usage (rs @ [s] @ ts) = usage (rs @ ts)" unfolding usage_def u(2) ..
  with u assms(1) show ?thesis by (simp only: tunnel_slots_def limiter_sys_inv_def limiter_sys.simps simp_thms)
qed

lemma tunnel_slots_release:
  assumes "tunnel_slots p (rs @ [s] @ ts)" and "\<not> rel_done s"
  shows "tunnel_slots (p\<lparr>srv_tunnelLimiter := fst (release (srv_tunnelLimiter p) s)\<rparr>) (rs @ ts)"
proof -
  obtain lim s' where r: "release (srv_tunnelLimiter p) s = (lim, s')" by (metis surj_pair)
  have d: "rel_done s'" using r assms(2) by (auto simp: release_def Let_def split: if_splits)
  have "tunnel_slots (p\<lparr>srv_tunnelLimiter := lim\<rparr>) (rs @ [s'] @ ts)"
    using inv_release [OF assms(1) [unfolded tunnel_slots_def], of "length rs" lim s'] r
    by (simp add: tunnel_slots_def)
  from tunnel_slots_done [OF this d] r show ?thesis by simp
qed

lemma tryAcquire_held: "tryAcquire l k = Some (s, l') \<Longrightarrow> \<not> rel_done s"
  using cl.acquire_load by blast

lemma map_of_untrack: "registry_ok r \<Longrightarrow> map_of (active (untrack p r)) p = None"
  by (auto simp: untrack_def delete_conv')

lemma other_step_keeps:
  assumes "other_step i (q, rs) (q', rs')" and "tunnel_slots q rs" and "i < length rs"
  shows "tunnel_slots q' rs' \<and> i < length rs' \<and> rs' ! i = rs ! i \<and>
     (registry_ok (srv_tunnels q) \<longrightarrow> registry_ok (srv_tunnels q')) \<and>
     srv_config q' = srv_config q \<and> srv_network q' = srv_network q \<and> srv_destinationACL q' = srv_destinationACL q"
  using assms(1)
proof cases
  case (o_acquire key s lim)
  with tunnel_slots_acquire [OF assms(2) o_acquire(3)] assms(3) show ?thesis by (simp add: nth_append)
next
  case (o_release j lim s)
  have "tunnel_slots (q\<lparr>srv_tunnelLimiter := lim\<rparr>) (rs[j := s])"
    using inv_release [OF assms(2) [unfolded tunnel_slots_def], of j lim s] o_release by (simp add: tunnel_slots_def)
  with o_release assms(3) show ?thesis by simp
qed (use assms(2,3) registry_ok_close [of "srv_tunnels q"] in \<open>auto simp: registry_ok_Track intro: registry_ok_untrack\<close>)

lemma other_steps_keep:
  assumes "(other_step i)\<^sup>*\<^sup>* (q, rs) (q', rs')" and "tunnel_slots q rs" and "i < length rs"
  shows "tunnel_slots q' rs' \<and> i < length rs' \<and> rs' ! i = rs ! i \<and>
     (registry_ok (srv_tunnels q) \<longrightarrow> registry_ok (srv_tunnels q')) \<and>
     srv_config q' = srv_config q \<and> srv_network q' = srv_network q \<and> srv_destinationACL q' = srv_destinationACL q"
  using assms(1)
proof (induction rule: rtranclp_induct2)
  case (step q1 rs1 q2 rs2)
  from other_step_keeps [OF step(2)] step.IH show ?case by simp
qed (use assms in simp)

lemma split_at: "i < length xs \<Longrightarrow> xs = take i xs @ [xs ! i] @ drop (Suc i) xs"
  by (simp add: id_take_nth_drop)

text \<open>The outcome of a tunnel handler that took the slot \<open>s\<close>: with no interference, or after some.\<close>

lemma tunnel_outcome:
  assumes "tunnelWithSlot env te parse url_String redacted p rw r w = Some (p', rw', l, w')"
    and "others_ok te" and "tunnel_slots p (rs @ [s])" and "\<not> rel_done s"
  obtains "tunnel_slots (p'\<lparr>srv_tunnelLimiter := fst (release (srv_tunnelLimiter p') s)\<rparr>) rs" "srv_config p' = srv_config p"
      "srv_network p' = srv_network p" "srv_destinationACL p' = srv_destinationACL p"
      "p' = p \<or> closing (srv_tunnels p) \<and> (\<exists>c d. p' = p\<lparr>srv_tunnels := fst (Track c d (srv_tunnels p))\<rparr>)"
  | c d q rs' where "q = p\<lparr>srv_tunnels := fst (Track c d (srv_tunnels p))\<rparr>"
      "(other_step (length rs))\<^sup>*\<^sup>* (q, rs @ [s]) (te_others te q, rs')"
      "tunnel_slots (p'\<lparr>srv_tunnelLimiter := fst (release (srv_tunnelLimiter p') s)\<rparr>) (without (length rs) rs')"
      "srv_config p' = srv_config p" "srv_network p' = srv_network p" "srv_destinationACL p' = srv_destinationACL p"
      "p' = (te_others te q)\<lparr>srv_tunnels := untrack (next_pair (srv_tunnels p)) (srv_tunnels (te_others te q))\<rparr>"
      "registry_ok (srv_tunnels p) \<Longrightarrow> registry_ok (srv_tunnels (te_others te q))"
proof -
  note outcome = that
  have direct: thesis
    if "p' = p \<or> closing (srv_tunnels p) \<and> (\<exists>c d. p' = p\<lparr>srv_tunnels := fst (Track c d (srv_tunnels p))\<rparr>)"
  proof (rule outcome(1))
    have "tunnel_slots p' (rs @ [s] @ [])" using that assms(3) by auto
    from tunnel_slots_release [OF this assms(4)]
    show "tunnel_slots (p'\<lparr>srv_tunnelLimiter := fst (release (srv_tunnelLimiter p') s)\<rparr>) rs" by simp
  qed (use that in auto)
  have busy: thesis if q: "q = p\<lparr>srv_tunnels := fst (Track c d (srv_tunnels p))\<rparr>"
    and p': "p' = (te_others te q)\<lparr>srv_tunnels := untrack (next_pair (srv_tunnels p)) (srv_tunnels (te_others te q))\<rparr>" for c d q
  proof -
    have sl: "tunnel_slots q (rs @ [s])" using assms(3) q by simp
    with assms(2) obtain rs' where run: "(other_step (length rs))\<^sup>*\<^sup>* (q, rs @ [s]) (te_others te q, rs')"
      unfolding others_ok_def by blast
    from other_steps_keep [OF run sl] have k: "tunnel_slots (te_others te q) rs'" "length rs < length rs'" "rs' ! length rs = s"
      "registry_ok (srv_tunnels q) \<longrightarrow> registry_ok (srv_tunnels (te_others te q))"
      "srv_config (te_others te q) = srv_config p" "srv_network (te_others te q) = srv_network p"
      "srv_destinationACL (te_others te q) = srv_destinationACL p" by (simp_all add: q)
    have "tunnel_slots p' (take (length rs) rs' @ [s] @ drop (Suc (length rs)) rs')"
      using k(1) split_at [OF k(2)] k(3) p' by simp
    from tunnel_slots_release [OF this assms(4)]
    have "tunnel_slots (p'\<lparr>srv_tunnelLimiter := fst (release (srv_tunnelLimiter p') s)\<rparr>) (without (length rs) rs')"
      by (simp add: without_def)
    with outcome(2) [OF q run] show thesis using k p' by (simp add: q registry_ok_Track)
  qed
  from tunnelWithSlot_effect [OF assms(1)] show thesis
    unfolding tunnel_effect_def Let_def using direct busy by blast
qed

lemma handleTunneling_slots:
  assumes "handleTunneling env te parse url_String redacted p rw r w = Some (p', rw', l, w')"
    and "others_ok te" and "tunnel_slots p rs"
  shows "tunnel_slots p' rs \<or>
     (\<exists>s lim c d q rs'. tryAcquire (srv_tunnelLimiter p) (addressHost (req_RemoteAddr r)) = Some (s, lim) \<and>
        q = p\<lparr>srv_tunnelLimiter := lim, srv_tunnels := fst (Track c d (srv_tunnels p))\<rparr> \<and>
        (other_step (length rs))\<^sup>*\<^sup>* (q, rs @ [s]) (te_others te q, rs') \<and> tunnel_slots p' (without (length rs) rs'))"
  using assms(1)
proof (cases rule: handleTunneling_cases)
  case (2 s lim p1)
  have "tunnel_slots (p\<lparr>srv_tunnelLimiter := lim\<rparr>) (rs @ [s])" by (rule tunnel_slots_acquire [OF assms(3) 2(1)])
  from 2(2) assms(2) this tryAcquire_held [OF 2(1)] show ?thesis
  proof (cases rule: tunnel_outcome)
    case (2 c d q rs')
    with \<open>tryAcquire _ _ = _\<close> \<open>p' = _\<close> show ?thesis by auto
  qed (use 2(3) in simp)
qed (use assms(3) in simp)

lemma handleTunneling_fields:
  assumes "handleTunneling env te parse url_String redacted p rw r w = Some (p', rw', l, w')" and "others_ok te" and "tunnel_slots p rs"
  shows "srv_config p' = srv_config p \<and> srv_network p' = srv_network p \<and> srv_destinationACL p' = srv_destinationACL p"
  using assms(1)
proof (cases rule: handleTunneling_cases)
  case (2 s lim p1)
  have "tunnel_slots (p\<lparr>srv_tunnelLimiter := lim\<rparr>) (rs @ [s])" by (rule tunnel_slots_acquire [OF assms(3) 2(1)])
  from 2(2) assms(2) this tryAcquire_held [OF 2(1)] show ?thesis
    by (cases rule: tunnel_outcome) (use 2(3) in simp_all)
qed simp

lemma handleTunneling_registry:
  assumes "handleTunneling env te parse url_String redacted p rw r w = Some (p', rw', l, w')"
    and "others_ok te" and "tunnel_slots p rs" and ok: "registry_ok (srv_tunnels p)"
  shows "registry_ok (srv_tunnels p') \<and> map_of (active (srv_tunnels p')) (next_pair (srv_tunnels p)) = None"
  using assms(1)
proof (cases rule: handleTunneling_cases)
  case (2 s lim p1)
  note p1 = 2(3)
  have closed: "active (fst (Track c d (srv_tunnels p))) = active (srv_tunnels p)" if "closing (srv_tunnels p)" for c d
    using that by (simp add: Track_def Let_def)
  have "tunnel_slots (p\<lparr>srv_tunnelLimiter := lim\<rparr>) (rs @ [s])" by (rule tunnel_slots_acquire [OF assms(3) 2(1)])
  from 2(2) assms(2) this tryAcquire_held [OF 2(1)] show ?thesis
  proof (cases rule: tunnel_outcome)
    case 1
    then show ?thesis using 2(3) ok map_of_fresh [OF ok] by (auto simp: closed registry_ok_Track)
  next
    case (2 c d q rs')
    with p1 ok show ?thesis by (auto intro: registry_ok_untrack map_of_untrack)
  qed
qed (use ok map_of_fresh in auto)

lemma NewServer_iff:
  "NewServer parse url_String sum256 fromEnv cfg = Inr p \<Longrightarrow>
     srv_config p = normalized cfg \<and> server_ok parse p \<and> tunnel_slots p [] \<and> active (srv_tunnels p) = []"
  "(\<exists>p. NewServer parse url_String sum256 fromEnv cfg = Inr p) \<longleftrightarrow> config_valid parse (normalized cfg)"
proof -
  show *: "srv_config p = normalized cfg \<and> server_ok parse p \<and> tunnel_slots p [] \<and> active (srv_tunnels p) = []"
    if n: "NewServer parse url_String sum256 fromEnv cfg = Inr p" for p
  proof -
    obtain c f network where v: "validateConfig parse cfg = (c, None)" and d: "DialNetwork (Network c) = Inr network"
      and p: "srv_config p = c" "srv_network p = network" "srv_destinationACL p = newDestinationACL c"
        "srv_tunnels p = NewRegistry" "srv_tunnelLimiter p = newConcurrentLimiter (MaxTunnels c) (MaxTunnelsPerIP c)"
      using n by (auto simp: NewServer_def split: prod.splits option.splits sum.splits)
    have c: "c = normalized cfg" "config_valid parse c" using v by (auto simp: validateConfig_iff)
    have "tunnel_slots p []"
      using limiter_sys_inv_init by (simp add: tunnel_slots_def p limiter_sys_init_def)
    with c d p show ?thesis by (auto simp: server_ok_def) (simp add: NewRegistry_def)
  qed
  show "(\<exists>p. NewServer parse url_String sum256 fromEnv cfg = Inr p) \<longleftrightarrow> config_valid parse (normalized cfg)"
  proof
    assume "\<exists>p. NewServer parse url_String sum256 fromEnv cfg = Inr p"
    with * show "config_valid parse (normalized cfg)" by (auto simp: server_ok_def)
  next
    assume ok: "config_valid parse (normalized cfg)"
    then have v: "validateConfig parse cfg = (normalized cfg, None)" by (simp add: validateConfig_iff)
    have "\<exists>f. buildProxyFuncWithEnvironment parse url_String (UpstreamProxy (normalized cfg)) fromEnv = Inr f"
      using ok by (auto simp: config_valid_def buildProxyFuncWithEnvironment_def DirectUpstream_def)
    moreover have "\<exists>n. DialNetwork (Network (normalized cfg)) = Inr n"
      using ok by (simp only: DialNetwork_Inr config_valid_def)
    ultimately show "\<exists>p. NewServer parse url_String sum256 fromEnv cfg = Inr p"
      using v by (auto simp: NewServer_def)
  qed
qed

lemma server_ok_auth [simp]: "server_ok parse (p\<lparr>srv_authenticator := a\<rparr>) = server_ok parse p"
  by (simp add: server_ok_def)

lemma ServeHTTP_keeps_ok:
  assumes "ServeHTTP env te Do parse url_String redacted sum256 t1 t2 p rw r w = Some (p', rw', l, w')"
    and "server_ok parse p" and "others_ok te"
  shows "server_ok parse p' \<and> srv_config p' = srv_config p"
  using assms(1)
proof (cases rule: ServeHTTP_cases)
  case (tunnel rw1 a la l1)
  let ?p = "p\<lparr>srv_authenticator := a\<rparr>"
  obtain rs where rs: "tunnel_slots ?p rs" using assms(2) by (auto simp: server_ok_def)
  from handleTunneling_slots [OF tunnel(3) assms(3) rs] have "\<exists>rs. tunnel_slots p' rs" by blast
  with handleTunneling_fields [OF tunnel(3) assms(3) rs] handleTunneling_registry [OF tunnel(3) assms(3) rs] assms(2)
  show ?thesis by (simp add: server_ok_def)
qed (use assms(2) in auto)

section \<open>Properties\<close>

text \<open>
  C16: A server is built exactly for the configurations that validate, and then starts in a
  well-formed state: the normalised configuration, the network and policy that belong to it, no
  tunnel and no slot in use.
\<close>

theorem new_server_exact:
  "((\<exists>p. NewServer parse url_String sum256 fromEnv cfg = Inr p) \<longleftrightarrow> config_valid parse (normalized cfg)) \<and>
   (case NewServer parse url_String sum256 fromEnv cfg of
      Inl _ \<Rightarrow> True
    | Inr p \<Rightarrow> srv_config p = normalized cfg \<and> server_ok parse p \<and> tunnel_slots p [] \<and> active (srv_tunnels p) = [])"
  using NewServer_iff [of parse url_String sum256 fromEnv cfg] by (auto split: sum.splits)

lemma demo_server_ok: "server_ok parse demo_server" "tunnel_slots demo_server []"
proof -
  show sl: "tunnel_slots demo_server []"
    using limiter_sys_inv_init [of 256 128]
    by (simp add: tunnel_slots_def demo_server_def defaultConfig_def limiter_sys_init_def)
  have "config_valid parse defaultConfig"
    using default_valid [of parse] by (metis validateConfig_iff)
  moreover have "DialNetwork (Network defaultConfig) = Inr ''tcp''" by (simp add: DialNetwork_def defaultConfig_def)
  ultimately show "server_ok parse demo_server"
    using sl by (auto simp: server_ok_def demo_server_def demo_acl_def)
qed

text \<open>Another client takes a slot while the tunnel is relayed.\<close>

definition demo_intruder :: "Server \<Rightarrow> Server" where
  "demo_intruder q =
     (case tryAcquire (srv_tunnelLimiter q) ''198.51.100.9'' of None \<Rightarrow> q | Some (s, lim) \<Rightarrow> q\<lparr>srv_tunnelLimiter := lim\<rparr>)"

abbreviation demo_busy :: "'w tun_env" where
  "demo_busy \<equiv> demo_tun\<lparr>te_others := demo_intruder\<rparr>"

lemma demo_others: "others_ok demo_busy"
proof -
  have "\<exists>rs'. (other_step i)\<^sup>*\<^sup>* (q, rs) (demo_intruder q, rs')" for i q rs
  proof (cases "tryAcquire (srv_tunnelLimiter q) ''198.51.100.9''")
    case (Some x)
    obtain s lim where "x = (s, lim)" by (metis surj_pair)
    with Some o_acquire [of q _ s lim i rs] show ?thesis by (auto simp: demo_intruder_def)
  qed (auto simp: demo_intruder_def)
  then show ?thesis by (simp add: others_ok_def)
qed

lemma demo_busy_slots:
  assumes "srv_tunnelLimiter p = demo_slotted"
  shows "srv_tunnelLimiter (demo_intruder p) = demo_slotted\<lparr>total := 2, perKey := [''192.0.2.7'' \<mapsto> 1, ''198.51.100.9'' \<mapsto> 1]\<rparr>"
    "srv_tunnels (demo_intruder p) = srv_tunnels p"
proof -
  have "limiter_key ''198.51.100.9'' = ''198.51.100.9''" by code_simp
  then show "srv_tunnelLimiter (demo_intruder p) = demo_slotted\<lparr>total := 2, perKey := [''192.0.2.7'' \<mapsto> 1, ''198.51.100.9'' \<mapsto> 1]\<rparr>"
    "srv_tunnels (demo_intruder p) = srv_tunnels p"
    using assms by (auto simp: demo_intruder_def tryAcquire_def demo_slotted_def perKey_at_def Let_def fun_eq_iff split: option.splits if_splits)
qed

text \<open>A CONNECT request meanwhile ends with the other client's slot still counted.\<close>

lemma demo_busy_tunnel:
  assumes "srv_proxyFunc p = (\<lambda>_. Inr None)" and "srv_config p = defaultConfig" and "srv_network p = ''tcp''"
    and "srv_destinationACL p = demo_acl" and "srv_tunnelLimiter p = newConcurrentLimiter 256 128" and "srv_tunnels p = NewRegistry"
  obtains p' w' where "handleTunneling (observe demo_env) demo_busy parse url_String redacted p rw (demo_request authorization) ((), []) =
     Some (p', rw, [], w')" "total (srv_tunnelLimiter p') = 1"
proof -
  have t: "total (fst (release (demo_slotted\<lparr>total := 2, perKey := m\<rparr>) \<lparr>rel_key = k, rel_done = False\<rparr>)) = 1" for m k
    by (simp add: release_def demo_slotted_def Let_def)
  show thesis
    by (rule that [OF demo_tunnel_run [OF assms, of demo_intruder, unfolded Let_def]]) (simp add: demo_busy_slots t)
qed

definition demo_connect :: "string \<Rightarrow> HttpRequest" where
  "demo_connect authorization = Request.extend (demo_request authorization) \<lparr>in_Trailer = [], in_hasBody = False\<rparr>"

lemma demo_connect_run:
  obtains p' l w' where "ServeHTTP (observe demo_env) demo_busy demo_Do parse url_String redacted id 100 100 demo_server newResponseWriter
     (demo_connect ''Basic YWxpY2U6czNjcmV0'') ((), []) = Some (p', newResponseWriter, l, w')" "total (srv_tunnelLimiter p') = 1"
proof -
  let ?r = "demo_request ''Basic YWxpY2U6czNjcmV0''"
  have tr: "Request.truncate (demo_connect ''Basic YWxpY2U6czNjcmV0'') = ?r" "req_Method (demo_connect ''Basic YWxpY2U6czNjcmV0'') = ''CONNECT''"
    by (simp_all add: demo_connect_def Request.truncate_def Request.extend_def demo_request_def)
  have "fst (fst (Authenticate id demo_basic 100 100 newResponseWriter ?r))"
    unfolding Authenticate_accepts demo_fresh using demo_presents by (auto simp: demo_basic_sel)
  from Authenticate_accept_effect [OF demo_basic_sel(1) this] obtain fl where
    A: "Authenticate id demo_basic 100 100 newResponseWriter ?r = ((True, newResponseWriter, demo_basic\<lparr>authFailures := fl\<rparr>), [])" by blast
  let ?p = "demo_server\<lparr>srv_authenticator := demo_basic\<lparr>authFailures := fl\<rparr>\<rparr>"
  obtain p' w' where "handleTunneling (observe demo_env) demo_busy parse url_String redacted ?p newResponseWriter ?r ((), []) =
     Some (p', newResponseWriter, [], w')" "total (srv_tunnelLimiter p') = 1"
    by (rule demo_busy_tunnel [of ?p]) (simp_all add: demo_server_def)
  moreover have "srv_authenticator demo_server = demo_basic" by (simp add: demo_server_def)
  ultimately show thesis using A tr that by (simp add: ServeHTTP_def Let_def)
qed

text \<open>
  C17: Serving any request, refused, forwarded or tunnelled, leaves the server well-formed, with its
  configuration, whatever other handlers do meanwhile by steps of their own: acquiring and releasing
  slots, tracking and untracking tunnels, closing the registry, counting failures.
\<close>

theorem serve_keeps_server_ok:
  assumes "ServeHTTP env te Do parse url_String redacted sum256 t1 t2 p rw r w = Some (p', rw', l, w')"
    and "server_ok parse p" and "others_ok te"
  shows "server_ok parse p' \<and> srv_config p' = srv_config p"
  using assms by (rule ServeHTTP_keeps_ok)

theorem serve_keeps_server_ok_witness:
  "\<exists>p' rw' l w'. ServeHTTP (observe demo_env) demo_busy demo_Do (\<lambda>_. None) (\<lambda>_. '''') (\<lambda>_. '''') id 100 100 demo_server newResponseWriter
     (demo_connect ''Basic YWxpY2U6czNjcmV0'') ((), []) = Some (p', rw', l, w') \<and> server_ok (\<lambda>_. None) p' \<and>
     total (srv_tunnelLimiter p') = 1"
proof -
  obtain p' l w' where run: "ServeHTTP (observe demo_env) demo_busy demo_Do (\<lambda>_. None) (\<lambda>_. '''') (\<lambda>_. '''') id 100 100 demo_server
     newResponseWriter (demo_connect ''Basic YWxpY2U6czNjcmV0'') ((), []) = Some (p', newResponseWriter, l, w')"
    "total (srv_tunnelLimiter p') = 1" by (rule demo_connect_run)
  from serve_keeps_server_ok [OF run(1) demo_server_ok(1) demo_others] run show ?thesis by blast
qed

text \<open>
  C4: A CONNECT handler gives back what it took, on every path: when it returns, the tunnel limiter
  accounts exactly for the slots \<open>rs\<close> of before, or, when others interfered while the tunnel was
  relayed, for the slots \<open>rs'\<close> handed out by then without this tunnel's; the registry is consistent,
  and the pair this tunnel was tracked under is gone from it.
\<close>

theorem tunnel_gives_back:
  assumes "handleTunneling env te parse url_String redacted p rw r w = Some (p', rw', l, w')"
    and "others_ok te" and "tunnel_slots p rs" and "registry_ok (srv_tunnels p)"
  shows "(tunnel_slots p' rs \<or>
          (\<exists>s lim c d q rs'. tryAcquire (srv_tunnelLimiter p) (addressHost (req_RemoteAddr r)) = Some (s, lim) \<and>
             q = p\<lparr>srv_tunnelLimiter := lim, srv_tunnels := fst (Track c d (srv_tunnels p))\<rparr> \<and>
             (other_step (length rs))\<^sup>*\<^sup>* (q, rs @ [s]) (te_others te q, rs') \<and>
             tunnel_slots p' (without (length rs) rs'))) \<and>
         registry_ok (srv_tunnels p') \<and> map_of (active (srv_tunnels p')) (next_pair (srv_tunnels p)) = None"
  using handleTunneling_slots [OF assms(1-3)] handleTunneling_registry [OF assms] by blast

theorem tunnel_gives_back_witness:
  "\<exists>p' rw' l w' rs'. handleTunneling (observe demo_env) demo_busy (\<lambda>_. None) (\<lambda>_. '''') (\<lambda>_. '''')
      demo_server newResponseWriter (demo_request '''') ((), []) = Some (p', rw', l, w') \<and>
     tunnel_slots p' rs' \<and> in_use rs' = 1 \<and> map_of (active (srv_tunnels p')) 0 = None"
proof -
  obtain p' w' where run: "handleTunneling (observe demo_env) demo_busy (\<lambda>_. None) (\<lambda>_. '''') (\<lambda>_. '''')
      demo_server newResponseWriter (demo_request '''') ((), []) = Some (p', newResponseWriter, [], w')"
    and one: "total (srv_tunnelLimiter p') = 1" by (rule demo_busy_tunnel [of demo_server]) (simp_all add: demo_server_def)
  have "registry_ok (srv_tunnels demo_server)" "next_pair (srv_tunnels demo_server) = 0"
    by (simp_all add: demo_server_def) (simp add: NewRegistry_def)
  with tunnel_gives_back [OF run demo_others demo_server_ok(2)] obtain rs' where
    g: "tunnel_slots p' rs'" "map_of (active (srv_tunnels p')) 0 = None" by auto
  then have "in_use rs' = 1" using one by (simp add: tunnel_slots_def limiter_sys_inv_def)
  with run g show ?thesis by blast
qed

end
