(* ===== verification/Server_Messages.thy ===== *)
theory Server_Messages
  imports Proxy_Server
begin

text \<open>
  What leaves the server: the headers of forwarded requests and responses, the statuses of error
  responses, and the log records.
\<close>

section \<open>Log records\<close>

text \<open>The attribute values a log record may carry when sensitive logging is off.\<close>

definition redacted_url :: "url \<Rightarrow> url" where
  "redacted_url u = empty_url\<lparr>url_Scheme := url_Scheme u, url_Host := url_Host u, url_Path := url_Path u, url_RawPath := url_RawPath u\<rparr>"

definition log_value_ok :: "(url \<Rightarrow> string) \<Rightarrow> 'a Request_scheme \<Rightarrow> string \<Rightarrow> log_value \<Rightarrow> bool" where
  "log_value_ok url_String r msg v \<longleftrightarrow>
     v \<in> {LStr (req_Method r), LStr (url_String (redacted_url (req_URL r))), LStr (req_Host r), LStr (req_RemoteAddr r),
          LStr ''Forbidden'', LStr ''Bad Gateway'', LStr ''Gateway Timeout'', LErr (New ''illegal base64 data'')} \<or>
     (\<exists>d. v = LDur d) \<or> (msg = ''Error copying response body'' \<and> ((\<exists>n. v = LInt n) \<or> (\<exists>e. v = LErr e))) \<or>
     (msg = ''Client connection hijack error'' \<and> (\<exists>e. v = LErr e))"

definition log_ok :: "(url \<Rightarrow> string) \<Rightarrow> 'a Request_scheme \<Rightarrow> log_entry list \<Rightarrow> bool" where
  "log_ok url_String r l \<longleftrightarrow> list_all (\<lambda>e. case e of Log level msg attrs \<Rightarrow> list_all (\<lambda>(k, v). log_value_ok url_String r msg v) attrs) l"

lemma log_ok_simps [simp]:
  "log_ok url_String r []"
  "log_ok url_String r (Log level msg attrs # l) \<longleftrightarrow>
     list_all (\<lambda>(k, v). log_value_ok url_String r msg v) attrs \<and> log_ok url_String r l"
  "log_ok url_String r (l @ l') \<longleftrightarrow> log_ok url_String r l \<and> log_ok url_String r l'"
  by (auto simp: log_ok_def)

lemma redacted_url_for_log:
  "\<not> LogSensitiveData (srv_config p) \<Longrightarrow> requestURLForLog url_String p u = url_String (redacted_url u)"
  by (cases u) (simp add: requestURLForLog_def redacted_url_def empty_url_def)

lemma errorForLog_ok:
  "\<not> LogSensitiveData (srv_config p) \<Longrightarrow> log_value_ok url_String r msg (errorForLog p e)"
  by (simp add: errorForLog_def upstreamErrorStatus_def StatusText_def log_value_ok_def)

lemma url_log_ok:
  "\<not> LogSensitiveData (srv_config p) \<Longrightarrow> log_value_ok url_String r msg (LStr (requestURLForLog url_String p (req_URL r)))"
  by (simp add: redacted_url_for_log log_value_ok_def)

lemma writeDestinationError_log:
  assumes "\<not> LogSensitiveData (srv_config p)" and "writeDestinationError url_String p rw (req_URL r) e = (rw', l)"
  shows "log_ok url_String r l"
  using assms by (auto simp: writeDestinationError_def Let_def url_log_ok errorForLog_ok split: if_splits)
     (simp add: log_value_ok_def StatusText_def)

lemma relayResponse_log: "relayResponse p rw response = (h, rw', l) \<Longrightarrow> log_ok url_String r l"
  by (auto simp: relayResponse_def Let_def log_value_ok_def split: prod.splits option.splits if_splits)

lemma handleHTTP_log:
  assumes "\<not> LogSensitiveData (srv_config p)" and "handleHTTP env Do url_String p rw r w = (rw', l, w')"
  shows "log_ok url_String r l"
proof (cases "\<exists>u d a. forwardedRequestURL r = Inr u \<and> requestDestination u = Inr d \<and> approveDestination env p d = Inr a")
  case True
  then obtain u d a where ok: "forwardedRequestURL r = Inr u" "requestDestination u = Inr d" "approveDestination env p d = Inr a"
    by blast
  obtain q s1 where q: "Do (transport_DialContext env p) (outboundRequest p r u a) w = (q, s1)" by (metis surj_pair)
  show ?thesis
  proof (cases q)
    case (Inl e)
    obtain rw2 l2 where d: "writeDestinationError url_String p rw (req_URL r) e = (rw2, l2)" by (metis surj_pair)
    show ?thesis
      using assms(2) ok q Inl d writeDestinationError_log [OF assms(1) d] url_log_ok [OF assms(1)] errorForLog_ok [OF assms(1)]
      by (auto simp: handleHTTP_def Let_def split: if_splits)
  next
    case (Inr resp)
    obtain h rw2 l2 where d: "relayResponse p rw resp = (h, rw2, l2)" by (metis surj_pair)
    show ?thesis
      using assms(2) ok q Inr d relayResponse_log [OF d, of url_String r] by (auto simp: handleHTTP_def Let_def)
  qed
next
  case False
  then show ?thesis
    using assms(2) url_log_ok [OF assms(1)] writeDestinationError_log [OF assms(1)]
    by (auto simp: handleHTTP_def Let_def split: sum.splits prod.splits)
qed

lemma relayHTTP1Tunnel_log: "relayHTTP1Tunnel env te p d w = (p', l, w') \<Longrightarrow> log_ok url_String r l"
  by (auto simp: relayHTTP1Tunnel_def Let_def log_value_ok_def split: sum.splits prod.splits option.splits)

lemma tunnelWithSlot_logs:
  assumes "\<not> LogSensitiveData (srv_config p)"
    and "tunnelWithSlot env te parse url_String redacted p rw r w = Some (p', rw', l, w')"
  shows "log_ok url_String r l"
proof -
  have host: "log_value_ok url_String r msg (LStr (req_Host r))" for msg by (simp add: log_value_ok_def)
  show ?thesis
    using assms(2) writeDestinationError_log [OF assms(1)] errorForLog_ok [OF assms(1)] host
    by (auto simp: tunnelWithSlot_def intro: relayHTTP1Tunnel_log split: sum.splits option.splits if_splits prod.splits)
qed

lemma handleTunneling_logs:
  assumes "\<not> LogSensitiveData (srv_config p)"
    and "handleTunneling env te parse url_String redacted p rw r w = Some (p', rw', l, w')"
  shows "log_ok url_String r l"
  using assms(2) tunnelWithSlot_logs [of "p\<lparr>srv_tunnelLimiter := _\<rparr>"] assms(1)
  by (auto simp: handleTunneling_def log_value_ok_def split: option.splits)

lemma Authenticate_log_ok:
  assumes "\<not> logSensitiveData a" and "Authenticate sum256 a t1 t2 rw r = (res, l)"
  shows "log_ok url_String r l"
proof -
  have "log_value_ok url_String r msg v" if "Log level msg attrs \<in> set l" "(k, v) \<in> set attrs" for level msg attrs k v
    using Authenticate_log [OF assms(1), of level msg attrs sum256 t1 t2 rw r] assms(2) that
    by (auto simp: log_value_ok_def)
  then show ?thesis by (auto simp: log_ok_def list_all_iff split: log_entry.splits)
qed

lemma log_ok_truncate [simp]: "log_ok url_String (Request.truncate r) l = log_ok url_String r l"
proof -
  have v: "log_value_ok url_String (Request.truncate r) = log_value_ok url_String r"
    by (simp add: fun_eq_iff log_value_ok_def Request.truncate_def)
  show ?thesis unfolding log_ok_def v ..
qed

lemma ServeHTTP_log:
  assumes "ServeHTTP env te Do parse url_String redacted sum256 t1 t2 p rw r w = Some (p', rw', l, w')"
    and "\<not> LogSensitiveData (srv_config p)" and "\<not> logSensitiveData (srv_authenticator p)"
  shows "log_ok url_String r l"
proof -
  have m: "log_value_ok url_String r msg (LStr (req_Method r))" for msg by (simp add: log_value_ok_def)
  note received = m url_log_ok [OF assms(2)]
  show ?thesis
    using assms(1)
  proof (cases rule: ServeHTTP_cases)
    case (refused a la)
    with Authenticate_log_ok [OF assms(3) refused(1), of url_String] received show ?thesis by simp
  next
    case (tunnel rw1 a la l1)
    with Authenticate_log_ok [OF assms(3) tunnel(1), of url_String] handleTunneling_logs [OF _ tunnel(3)] assms(2) received
    show ?thesis by simp
  next
    case (forward rw1 a la l1)
    with Authenticate_log_ok [OF assms(3) forward(1), of url_String] handleHTTP_log [OF _ forward(3)] assms(2) received
    show ?thesis by simp
  qed
qed

section \<open>Headers of a forwarded request\<close>

lemma canonical_te: "CanonicalHeaderKey ''Te'' = ''Te''" "CanonicalHeaderKey ''Trailer'' = ''Trailer''"
  "CanonicalHeaderKey ''Proxy-Authorization'' = ''Proxy-Authorization''"
  by code_simp+

lemma te_fixed: "hop_by_hop h ''Te''" "hop_by_hop h ''Trailer''" "hop_by_hop h ''Proxy-Authorization''"
proof -
  have "{''Te'', ''Trailer'', ''Proxy-Authorization''} \<subseteq> CanonicalHeaderKey ` set hopByHopHeaders" by code_simp
  then show "hop_by_hop h ''Te''" "hop_by_hop h ''Trailer''" "hop_by_hop h ''Proxy-Authorization''"
    by (auto simp: hop_by_hop_def)
qed

lemma Values_Set: "Values (Set h k v) j = (if CanonicalHeaderKey j = CanonicalHeaderKey k then [v] else Values h j)"
  by (simp add: Values_def)

lemma outbound_values:
  "Values (out_Header (outboundRequest p r u a)) k =
     (let c = CanonicalHeaderKey k; h = req_Header r; privacy = PrivacyMode (srv_config p) in
      if c = ''Te'' then (if headerValuesContainToken (Values h ''Te'') ''trailers'' then [''trailers''] else [])
      else (if hop_by_hop h c \<or> privacy \<and> privacy_name c then [] else Values h k) @
           (if \<not> privacy \<and> c = ''Via'' then [Itoa (req_ProtoMajor r) @ ''.'' @ Itoa (req_ProtoMinor r) @ '' https_proxy''] else []))"
  by (auto simp: outboundRequest_def Let_def Values_appendVia Values_Set Values_removePrivacyHeaders
      Values_removeHopByHopHeaders canonical_te te_fixed viaReceivedBy_def)

lemma canonical_header_filter: "canonical_header h \<Longrightarrow> canonical_header (filter P h)"
  by (auto simp: canonical_header_def header_ok_filter)

lemma canonical_header_Del: "canonical_header h \<Longrightarrow> canonical_header (foldl Del h ns)"
proof (induction ns arbitrary: h)
  case (Cons n ns)
  have "canonical_header (Del h n)"
    using canonical_header_filter [OF Cons.prems] by (simp add: Del_def AList.delete_eq)
  with Cons.IH show ?case by simp
qed simp

lemma canonical_header_removeHopByHop: "canonical_header h \<Longrightarrow> canonical_header (removeHopByHopHeaders h)"
  by (simp add: removeHopByHopHeaders_eq canonical_header_Del)

lemma canonical_header_Add: "canonical_header h \<Longrightarrow> canonical_header (Add h k v)"
  by (auto simp: canonical_header_def Add_def header_ok_def distinct_update dom_update)

lemma Values_copyHeaders: "canonical_header s \<Longrightarrow> Values (copyHeaders d s) k = Values d k @ Values s k"
  by (auto simp: Values_def map_of_copyHeaders values_for_canonical split: option.splits)

lemma relayed_values:
  assumes "canonical_header (resp_Header resp)" and "relayResponse p rw resp = (h, rw', l)"
  shows "Values h k =
     (let c = CanonicalHeaderKey k; g = resp_Header resp; privacy = PrivacyMode (srv_config p);
          t = (if privacy then removePrivacyHeaders (resp_Trailer resp) else resp_Trailer resp) in
      Values (rw_Header rw) k @ (if hop_by_hop g c \<or> privacy \<and> privacy_name c then [] else Values g k) @
      (if \<not> privacy \<and> c = ''Via'' then [Itoa (resp_ProtoMajor resp) @ ''.'' @ Itoa (resp_ProtoMinor resp) @ '' https_proxy''] else []) @
      (if c = ''Trailer'' \<and> t \<noteq> [] then [Join (map fst t) '', ''] else []))"
proof -
  let ?P = "PrivacyMode (srv_config p)"
  let ?g = "removeHopByHopHeaders (resp_Header resp)"
  let ?g' = "if ?P then removePrivacyHeaders ?g else appendVia ?g (resp_ProtoMajor resp) (resp_ProtoMinor resp)"
  let ?t = "if ?P then removePrivacyHeaders (resp_Trailer resp) else resp_Trailer resp"
  have can: "canonical_header ?g'"
    using canonical_header_removeHopByHop [OF assms(1)]
    by (auto simp: removePrivacyHeaders_filter appendVia_def intro: canonical_header_filter canonical_header_Add)
  have h: "h = fst (announceTrailers (copyHeaders (rw_Header rw) ?g') ?t)"
    using assms(2) by (auto simp: relayResponse_def Let_def split: prod.splits option.splits if_splits)
  have "Values h k = Values (copyHeaders (rw_Header rw) ?g') k @ (if CanonicalHeaderKey k = ''Trailer'' \<and> ?t \<noteq> [] then [Join (map fst ?t) '', ''] else [])"
    unfolding h announceTrailers_def Let_def by (auto simp: Values_def canonical_te)
  then show ?thesis
    by (auto simp: Let_def Values_copyHeaders [OF can] Values_appendVia Values_removePrivacyHeaders
        Values_removeHopByHopHeaders canonical_via te_fixed viaReceivedBy_def)
qed

text \<open>The trailers the writer ends with: under their own names when their number is the announced one, else prefixed.\<close>

lemma relayed_trailers:
  assumes "relayResponse p rw resp = (h, rw', l)" and "canonical_header (resp_lateTrailer resp)" and "resp_copyErr resp = None"
  shows "let c = CanonicalHeaderKey k; privacy = PrivacyMode (srv_config p);
           t = (if privacy then removePrivacyHeaders (resp_Trailer resp) else resp_Trailer resp);
           late = (if privacy then removePrivacyHeaders (resp_lateTrailer resp) else resp_lateTrailer resp) in
         if length late = length t then Values (rw_Header rw') k = Values h k @ Values late k
         else map_of late c = Some vs \<longrightarrow> Values (rw_Header rw') (TrailerPrefix @ c) = Values h (TrailerPrefix @ c) @ vs"
proof -
  let ?P = "PrivacyMode (srv_config p)"
  let ?t = "if ?P then removePrivacyHeaders (resp_Trailer resp) else resp_Trailer resp"
  let ?late = "if ?P then removePrivacyHeaders (resp_lateTrailer resp) else resp_lateTrailer resp"
  have can: "canonical_header ?late"
    using assms(2) by (auto simp: removePrivacyHeaders_filter intro: canonical_header_filter)
  have n: "announceTrailers x t = (y, m) \<Longrightarrow> m = length t" for x t y m
    by (auto simp: announceTrailers_def Let_def split: if_splits)
  have "rw_Header rw' = (if ?late = [] then h else copyTrailers h ?late (length ?t))"
    using assms(1,3) by (auto simp: relayResponse_def Let_def WriteHeader_def dest: n split: prod.splits option.splits if_splits)
  with trailers_copied [OF can, of "length ?t" h k vs] show ?thesis by (auto simp: Let_def Values_def)
qed

section \<open>Properties\<close>

text \<open>
  C12: The headers of a forwarded request are, name by name, those of the client's request without
  the hop-by-hop headers and, in privacy mode, without the identifying ones; \<^verbatim>\<open>Te\<close> is
  \<^verbatim>\<open>trailers\<close> exactly when the client accepts trailers; outside privacy mode this proxy's entry
  ends the \<^verbatim>\<open>Via\<close> chain.  In particular the proxy credentials are never forwarded.
\<close>

theorem outbound_headers_exact:
  "Values (out_Header (outboundRequest p r u a)) k =
     (let c = CanonicalHeaderKey k; h = req_Header r; privacy = PrivacyMode (srv_config p) in
      if c = ''Te'' then (if headerValuesContainToken (Values h ''Te'') ''trailers'' then [''trailers''] else [])
      else (if hop_by_hop h c \<or> privacy \<and> privacy_name c then [] else Values h k) @
           (if \<not> privacy \<and> c = ''Via'' then [Itoa (req_ProtoMajor r) @ ''.'' @ Itoa (req_ProtoMinor r) @ '' https_proxy''] else [])) \<and>
   Values (out_Header (outboundRequest p r u a)) ''Proxy-Authorization'' = []"
proof -
  have "Values (out_Header (outboundRequest p r u a)) ''Proxy-Authorization'' = []"
    unfolding outbound_values by (simp add: Let_def canonical_te te_fixed)
  then show ?thesis using outbound_values by blast
qed

text \<open>
  C13: The headers sent to the client with a response are those the writer had, the origin's
  end-to-end headers (in privacy mode without the identifying ones), this proxy's \<^verbatim>\<open>Via\<close> entry outside
  privacy mode, and a \<^verbatim>\<open>Trailer\<close> header that names the trailers known at that time.  Once the body is
  copied, the trailers received (in privacy mode without the identifying ones) are added: under their
  own names when their number is the announced one, and otherwise, when more came than were
  announced, each under the prefix \<^verbatim>\<open>http.TrailerPrefix\<close> that sends it unannounced.
\<close>

theorem response_headers_exact:
  assumes "canonical_header (resp_Header resp)" and "relayResponse p rw resp = (h, rw', l)"
  shows "Values h k =
     (let c = CanonicalHeaderKey k; g = resp_Header resp; privacy = PrivacyMode (srv_config p);
          t = (if privacy then removePrivacyHeaders (resp_Trailer resp) else resp_Trailer resp) in
      Values (rw_Header rw) k @ (if hop_by_hop g c \<or> privacy \<and> privacy_name c then [] else Values g k) @
      (if \<not> privacy \<and> c = ''Via'' then [Itoa (resp_ProtoMajor resp) @ ''.'' @ Itoa (resp_ProtoMinor resp) @ '' https_proxy''] else []) @
      (if c = ''Trailer'' \<and> t \<noteq> [] then [Join (map fst t) '', ''] else [])) \<and>
   (canonical_header (resp_lateTrailer resp) \<and> resp_copyErr resp = None \<longrightarrow>
     (let c = CanonicalHeaderKey k; privacy = PrivacyMode (srv_config p);
          t = (if privacy then removePrivacyHeaders (resp_Trailer resp) else resp_Trailer resp);
          late = (if privacy then removePrivacyHeaders (resp_lateTrailer resp) else resp_lateTrailer resp) in
      if length late = length t then Values (rw_Header rw') k = Values h k @ Values late k
      else map_of late c = Some vs \<longrightarrow> Values (rw_Header rw') (TrailerPrefix @ c) = Values h (TrailerPrefix @ c) @ vs))"
  using relayed_values [OF assms] relayed_trailers [OF assms(2)] by blast

definition demo_late :: Response where
  "demo_late = demo_origin\<lparr>resp_lateTrailer := [(''X-Late-Trailer'', [''late-value''])]\<rparr>"

theorem response_headers_exact_witness:
  "\<exists>h rw' l. relayResponse demo_server newResponseWriter demo_late = (h, rw', l) \<and>
     Values h ''Server'' = [''demo''] \<and> Values h ''Connection'' = [] \<and> Values h ''Via'' = [''1.1 https_proxy''] \<and>
     Values (rw_Header rw') (TrailerPrefix @ ''X-Late-Trailer'') = Values h (TrailerPrefix @ ''X-Late-Trailer'') @ [''late-value'']"
proof -
  obtain h rw' l where rr: "relayResponse demo_server newResponseWriter demo_late = (h, rw', l)" by (metis surj_pair)
  have c: "canonical_header (resp_Header demo_late)" "canonical_header (resp_lateTrailer demo_late)" by code_simp+
  have p: "\<not> PrivacyMode (srv_config demo_server)" by (simp add: demo_server_def defaultConfig_def)
  have v: "hop_by_hop (resp_Header demo_late) ''Connection''" "\<not> hop_by_hop (resp_Header demo_late) ''Server''"
    "Values (resp_Header demo_late) ''Server'' = [''demo'']" "Values (resp_Header demo_late) ''Via'' = []"
    "CanonicalHeaderKey ''Server'' = ''Server''" "CanonicalHeaderKey ''Connection'' = ''Connection''"
    "CanonicalHeaderKey ''X-Late-Trailer'' = ''X-Late-Trailer''" "Itoa 1 = ''1''" by code_simp+
  have e: "rw_Header newResponseWriter = []" "Values [] k = []" "resp_ProtoMajor demo_late = 1" "resp_ProtoMinor demo_late = 1"
    "resp_Trailer demo_late = []" "resp_lateTrailer demo_late = [(''X-Late-Trailer'', [''late-value''])]" "resp_copyErr demo_late = None" for k
    by (simp_all add: newResponseWriter_def Values_def demo_late_def demo_origin_def)
  note vals = response_headers_exact [OF c(1) rr, THEN conjunct1, unfolded Let_def]
  have "Values h ''Server'' = [''demo'']" "Values h ''Connection'' = []" "Values h ''Via'' = [''1.1 https_proxy'']"
    by (simp_all add: vals p v e canonical_via)
  moreover have "Values (rw_Header rw') (TrailerPrefix @ ''X-Late-Trailer'') = Values h (TrailerPrefix @ ''X-Late-Trailer'') @ [''late-value'']"
    using response_headers_exact [OF c(1) rr, THEN conjunct2, of "''X-Late-Trailer''" "[''late-value'']"] c(2) by (simp add: e p v Let_def)
  ultimately show ?thesis using rr by blast
qed

text \<open>
  C15: With sensitive logging off, every attribute value the server logs while serving a request is
  the method, the URL reduced to scheme, host and path, the host, the client address, a status text,
  a duration or a fixed decoding error; so neither credentials nor the query reach the log.  The
  exceptions are the errors of hijacking the client connection and of copying a response body,
  which are logged as they are.
\<close>

theorem serve_log_redacted:
  assumes "ServeHTTP env te Do parse url_String redacted sum256 t1 t2 p rw r w = Some (p', rw', l, w')"
    and "\<not> LogSensitiveData (srv_config p)" and "\<not> logSensitiveData (srv_authenticator p)"
    and "Log level msg attrs \<in> set l" and "(k, v) \<in> set attrs"
  shows "v \<in> {LStr (req_Method r), LStr (url_String (redacted_url (req_URL r))), LStr (req_Host r), LStr (req_RemoteAddr r),
              LStr ''Forbidden'', LStr ''Bad Gateway'', LStr ''Gateway Timeout'', LErr (New ''illegal base64 data'')} \<or>
         (\<exists>d. v = LDur d) \<or> (msg = ''Error copying response body'' \<and> ((\<exists>n. v = LInt n) \<or> (\<exists>e. v = LErr e))) \<or>
         (msg = ''Client connection hijack error'' \<and> (\<exists>e. v = LErr e))"
  using ServeHTTP_log [OF assms(1-3)] assms(4,5) unfolding log_ok_def list_all_iff log_value_ok_def by fastforce

theorem serve_log_redacted_witness:
  "\<exists>p' rw' l w' attrs v. ServeHTTP (observe demo_env) demo_tun demo_Do (\<lambda>_. None) url_RawQuery (\<lambda>_. '''') id 100 100 demo_server newResponseWriter
     (demo_get ''Basic YWxpY2U6czNjcmV0'') ((), []) = Some (p', rw', l, w') \<and>
     Log LInfo ''Received request'' attrs \<in> set l \<and> (''url'', v) \<in> set attrs \<and> v = LStr ''''"
proof -
  obtain p' rw' l w' where run: "ServeHTTP (observe demo_env) demo_tun demo_Do (\<lambda>_. None) url_RawQuery (\<lambda>_. '''') id 100 100 demo_server
     newResponseWriter (demo_get ''Basic YWxpY2U6czNjcmV0'') ((), []) = Some (p', rw', l, w')" using demo_get_run by blast
  have s: "\<not> LogSensitiveData (srv_config demo_server)" "\<not> logSensitiveData (srv_authenticator demo_server)"
    by (simp_all add: demo_server_def defaultConfig_def demo_basic_sel)
  let ?a = "[(''method'', LStr (req_Method (demo_get ''Basic YWxpY2U6czNjcmV0''))),
     (''url'', LStr (requestURLForLog url_RawQuery demo_server (req_URL (demo_get ''Basic YWxpY2U6czNjcmV0''))))]"
  from run have i: "Log LInfo ''Received request'' ?a \<in> set l" by (cases rule: ServeHTTP_cases) auto
  have u: "requestURLForLog url_RawQuery demo_server (req_URL (demo_get ''Basic YWxpY2U6czNjcmV0'')) = ''''"
    by (simp add: redacted_url_for_log [OF s(1)] redacted_url_def empty_url_def)
  have "LStr (requestURLForLog url_RawQuery demo_server (req_URL (demo_get ''Basic YWxpY2U6czNjcmV0''))) = LStr ''''"
    using serve_log_redacted [OF run s i, of "''url''" "LStr (requestURLForLog url_RawQuery demo_server (req_URL (demo_get ''Basic YWxpY2U6czNjcmV0'')))"] u
    by simp
  then have "\<exists>attrs v. Log LInfo ''Received request'' attrs \<in> set l \<and> (''url'', v) \<in> set attrs \<and> v = LStr ''''"
    using i by (intro exI [of _ ?a]) auto
  with run show ?thesis by blast
qed

text \<open>
  An error of copying a response body, which may be the upstream's, is logged with its text even
  with sensitive logging off.
\<close>

theorem copy_error_logged_raw:
  assumes "resp_copyErr resp = Some e"
  shows "\<exists>h rw'. relayResponse p rw resp = (h, rw', [Log LError ''Error copying response body''
     [(''written'', LInt (int (length (resp_copied resp)))), (''error'', LErr e)]])"
  using assms by (auto simp: relayResponse_def Let_def split: prod.splits)

definition failure_status :: "err \<Rightarrow> int" where
  "failure_status e =
     (if errors_Is e errDestinationDenied then 403
      else if errors_Is e DeadlineExceeded \<or> net_error_timeout e = Some True then 504 else 502)"

text \<open>
  C14: A client learns of a failed request only its category: a destination the policy denies is
  answered 403, also when the denial comes from the transport, a timeout 504 and any other failure
  502, with the status text as the body; a denied destination is never contacted.
\<close>

theorem failed_request_status:
  assumes "handleHTTP env Do url_String p rw r w = (rw', l, w')"
    and "forwardedRequestURL r = Inr u" and "requestDestination u = Inr d"
    and "(approveDestination env p d = Inl e \<and> v = w) \<or>
         (\<exists>a. approveDestination env p d = Inr a \<and> Do (transport_DialContext env p) (outboundRequest p r u a) w = (Inl e, v))"
  shows "rw' = http_Error rw (StatusText (failure_status e)) (failure_status e) \<and> w' = v"
proof -
  have d: "fst (writeDestinationError url_String p rw (req_URL r) e) = http_Error rw (StatusText (failure_status e)) (failure_status e)"
    by (simp add: writeDestinationError_def writeUpstreamError_def upstreamErrorStatus_def failure_status_def Let_def)
  obtain rw2 l2 where w: "writeDestinationError url_String p rw (req_URL r) e = (rw2, l2)" by (metis surj_pair)
  show ?thesis
    using assms d w
    by (auto simp: handleHTTP_def Let_def writeUpstreamError_def upstreamErrorStatus_def failure_status_def split: if_splits)
qed

theorem failed_request_status_witness:
  "\<exists>l. handleHTTP demo_env (\<lambda>d q v. (Inl (Wrapf ''dial: %w'' [] DeadlineExceeded), v)) (\<lambda>_. '''') demo_server newResponseWriter (demo_get '''') () =
     (http_Error newResponseWriter ''Gateway Timeout'' 504, l, ())"
proof -
  let ?Do = "\<lambda>d q v. (Inl (Wrapf ''dial: %w'' [] DeadlineExceeded), v)"
  obtain rw' l where run: "handleHTTP demo_env ?Do (\<lambda>_. '''') demo_server newResponseWriter (demo_get '''') () = (rw', l, ())"
    by (cases "handleHTTP demo_env ?Do (\<lambda>_. '''') demo_server newResponseWriter (demo_get '''') ()") auto
  have a: "approveDestination demo_env demo_server ''example.com:443'' = Inr \<lparr>original = ''example.com:443'', addresses = [''93.184.216.34:443'']\<rparr>"
    by (rule demo_approveDestination)
  have "failure_status (Wrapf ''dial: %w'' [] DeadlineExceeded) = 504" by (simp add: failure_status_def)
  moreover have "rw' = http_Error newResponseWriter (StatusText (failure_status (Wrapf ''dial: %w'' [] DeadlineExceeded)))
      (failure_status (Wrapf ''dial: %w'' [] DeadlineExceeded)) \<and> () = ()"
    by (rule failed_request_status [OF run demo_get_destination(1,2)]) (use a in blast)
  ultimately show ?thesis using run by (simp add: StatusText_def)
qed

end
