(* ===== verification/Certificate.thy ===== *)
theory Certificate
  imports Go_Http
begin

text \<open>
  Certificate reloading, \<^verbatim>\<open>internal/proxy/certificate.go\<close>.

  Parameters: \<^verbatim>\<open>os.ReadFile\<close> as a function on an arbitrary world \<open>'w\<close> (\<open>readFile path w\<close> is its result
  and the world after it, so the files may change between any two reads), \<^verbatim>\<open>tls.X509KeyPair\<close> with its
  certificate type \<open>'c\<close>, and \<^verbatim>\<open>sha256.Sum256\<close>.  The body of \<^verbatim>\<open>getCertificate\<close> runs under the mutex and
  is one step of \<open>cert_step\<close>; the clock does not go back.
\<close>

section \<open>Definitions\<close>

record certificateFingerprint =
  fp_certificate :: string
  fp_privateKey :: string

record 'c certificateReloader =
  certificatePath :: string
  keyPath :: string
  reloadInterval :: duration
  nextCheck :: time
  certificate :: 'c
  fingerprint :: certificateFingerprint

type_synonym 'w file_reader = "string \<Rightarrow> 'w \<Rightarrow> (err + string) \<times> 'w"

definition loadCertificatePair ::
  "'w file_reader \<Rightarrow> (string \<Rightarrow> string \<Rightarrow> err + 'c) \<Rightarrow> (string \<Rightarrow> string) \<Rightarrow> string \<Rightarrow> string \<Rightarrow> 'w
     \<Rightarrow> (err + 'c \<times> certificateFingerprint) \<times> 'w" where
  "loadCertificatePair readFile keyPair sum256 certPath kPath w =
     (case readFile certPath w of
        (Inl e, w) \<Rightarrow> (Inl (Wrapf ''read TLS certificate: %w'' [] e), w)
      | (Inr certificatePEM, w) \<Rightarrow>
          (case readFile kPath w of
             (Inl e, w) \<Rightarrow> (Inl (Wrapf ''read TLS private key: %w'' [] e), w)
           | (Inr keyPEM, w) \<Rightarrow>
               (case keyPair certificatePEM keyPEM of
                  Inl e \<Rightarrow> (Inl (Wrapf ''parse TLS certificate pair: %w'' [] e), w)
                | Inr cert \<Rightarrow> (Inr (cert, \<lparr>fp_certificate = sum256 certificatePEM, fp_privateKey = sum256 keyPEM\<rparr>), w))))"

text \<open>\<open>t\<close> is the instant of \<^verbatim>\<open>time.Now()\<close>, after the files were read.\<close>

definition newCertificateReloader ::
  "'w file_reader \<Rightarrow> (string \<Rightarrow> string \<Rightarrow> err + 'c) \<Rightarrow> (string \<Rightarrow> string) \<Rightarrow> time \<Rightarrow> string \<Rightarrow> string \<Rightarrow> duration \<Rightarrow> 'w
     \<Rightarrow> (err + 'c certificateReloader) \<times> 'w" where
  "newCertificateReloader readFile keyPair sum256 t certPath kPath interval w =
     (case loadCertificatePair readFile keyPair sum256 certPath kPath w of
        (Inl e, w) \<Rightarrow> (Inl e, w)
      | (Inr (cert, fp), w) \<Rightarrow>
          (Inr \<lparr>certificatePath = certPath, keyPath = kPath, reloadInterval = interval,
                nextCheck = time_Add t interval, certificate = cert, fingerprint = fp\<rparr>, w))"

text \<open>The certificate for a handshake at the instant \<open>t\<close>; the error result is always \<^verbatim>\<open>nil\<close>.\<close>

definition getCertificate ::
  "'w file_reader \<Rightarrow> (string \<Rightarrow> string \<Rightarrow> err + 'c) \<Rightarrow> (string \<Rightarrow> string) \<Rightarrow> time \<Rightarrow> 'c certificateReloader \<Rightarrow> 'w
     \<Rightarrow> 'c \<times> 'c certificateReloader \<times> log_entry list \<times> 'w" where
  "getCertificate readFile keyPair sum256 t r w =
     (if t < nextCheck r then (certificate r, r, [], w)
      else
        let r = r\<lparr>nextCheck := time_Add t (reloadInterval r)\<rparr> in
        case loadCertificatePair readFile keyPair sum256 (certificatePath r) (keyPath r) w of
          (Inl e, w) \<Rightarrow> (certificate r, r,
            [Log LWarn ''Could not reload TLS certificate; keeping the previous certificate'' [(''error'', LErr e)]], w)
        | (Inr (cert, fp), w) \<Rightarrow>
            if fp = fingerprint r then (certificate r, r, [], w)
            else
              let r = r\<lparr>certificate := cert, fingerprint := fp\<rparr>
              in (certificate r, r, [Log LInfo ''TLS certificate reloaded'' []], w))"

section \<open>Handshakes over time\<close>

text \<open>A file system that also records every read made of it: the instant, the path and the result.\<close>

type_synonym read_log = "(time \<times> string \<times> (err + string)) list"

definition watched :: "'w file_reader \<Rightarrow> time \<Rightarrow> ('w \<times> read_log) file_reader" where
  "watched readFile t path = (\<lambda>(w, log). case readFile path w of (res, w) \<Rightarrow> (res, (w, log @ [(t, path, res)])))"

lemma watched_apply [simp]:
  "watched readFile t path (w, log) = (case readFile path w of (res, w) \<Rightarrow> (res, (w, log @ [(t, path, res)])))"
  by (simp add: watched_def)

text \<open>
  The reloader, the clock, the reads so far and the certificates handed out, newest first.  At every
  handshake the files are in an arbitrary state \<open>w\<close>.
\<close>

record 'c cert_sys =
  cs_reloader :: "'c certificateReloader"
  cs_clock :: time
  cs_log :: read_log
  cs_served :: "'c list"

inductive cert_step ::
  "'w file_reader \<Rightarrow> (string \<Rightarrow> string \<Rightarrow> err + 'c) \<Rightarrow> (string \<Rightarrow> string) \<Rightarrow> 'c cert_sys \<Rightarrow> 'c cert_sys \<Rightarrow> bool"
  for readFile keyPair sum256 where
  handshake:
    "cs_clock s \<le> t \<Longrightarrow>
     getCertificate (watched readFile t) keyPair sum256 t (cs_reloader s) (w, cs_log s) = (cert, r, l, (w', log)) \<Longrightarrow>
     cert_step readFile keyPair sum256 s
       (s\<lparr>cs_reloader := r, cs_clock := t, cs_log := log, cs_served := cert # cs_served s\<rparr>)"

definition cert_init ::
  "'w file_reader \<Rightarrow> (string \<Rightarrow> string \<Rightarrow> err + 'c) \<Rightarrow> (string \<Rightarrow> string) \<Rightarrow> 'c cert_sys \<Rightarrow> bool" where
  "cert_init readFile keyPair sum256 s \<longleftrightarrow>
     (\<exists>t0 t certPath kPath interval w w' r log. 0 < interval \<and> t0 \<le> t \<and>
        newCertificateReloader (watched readFile t0) keyPair sum256 t certPath kPath interval (w, []) = (Inr r, (w', log)) \<and>
        s = \<lparr>cs_reloader = r, cs_clock = t, cs_log = log, cs_served = []\<rparr>)"

text \<open>The contents of both files were read at one check, and they form the certificate.\<close>

definition read_pair :: "'c certificateReloader \<Rightarrow> read_log \<Rightarrow> string \<Rightarrow> string \<Rightarrow> bool" where
  "read_pair r log c k \<longleftrightarrow> (\<exists>u. (u, certificatePath r, Inr c) \<in> set log \<and> (u, keyPath r, Inr k) \<in> set log)"

definition from_reads :: "(string \<Rightarrow> string \<Rightarrow> err + 'c) \<Rightarrow> 'c certificateReloader \<Rightarrow> read_log \<Rightarrow> 'c \<Rightarrow> bool" where
  "from_reads keyPair r log cert \<longleftrightarrow> (\<exists>c k. read_pair r log c k \<and> keyPair c k = Inr cert)"

text \<open>Checks of the files at different instants lie at least \<open>d\<close> apart, and each reads at most two files.\<close>

definition throttled :: "duration \<Rightarrow> read_log \<Rightarrow> bool" where
  "throttled d log \<longleftrightarrow>
     (\<forall>x \<in> set log. \<forall>y \<in> set log. fst x < fst y \<longrightarrow> fst x + d \<le> fst y) \<and>
     (\<forall>v. length (filter (\<lambda>x. fst x = v) log) \<le> 2)"

definition cert_inv :: "(string \<Rightarrow> string \<Rightarrow> err + 'c) \<Rightarrow> (string \<Rightarrow> string) \<Rightarrow> 'c cert_sys \<Rightarrow> bool" where
  "cert_inv keyPair sum256 s \<longleftrightarrow>
     (\<exists>c k. read_pair (cs_reloader s) (cs_log s) c k \<and> keyPair c k = Inr (certificate (cs_reloader s)) \<and>
        fingerprint (cs_reloader s) = \<lparr>fp_certificate = sum256 c, fp_privateKey = sum256 k\<rparr>) \<and>
     (\<forall>cert \<in> set (cs_served s). from_reads keyPair (cs_reloader s) (cs_log s) cert) \<and>
     throttled (reloadInterval (cs_reloader s)) (cs_log s) \<and> 0 < reloadInterval (cs_reloader s) \<and>
     (\<forall>x \<in> set (cs_log s). fst x + reloadInterval (cs_reloader s) \<le> nextCheck (cs_reloader s)) \<and>
     nextCheck (cs_reloader s) \<le> cs_clock s + reloadInterval (cs_reloader s)"

lemma throttled_append:
  assumes "throttled d log" and "\<forall>x \<in> set log. fst x + d \<le> t" and "0 < d"
    and "\<forall>x \<in> set new. fst x = t" and "length new \<le> 2"
  shows "throttled d (log @ new)"
proof -
  have other: "filter (\<lambda>x. fst x = v) new = []" if "v \<noteq> t" for v using that assms(4) by (auto simp: filter_empty_conv)
  have fresh: "filter (\<lambda>x. fst x = t) log = []" using assms(2,3) by (auto simp: filter_empty_conv)
  have "length (filter (\<lambda>x. fst x = v) (log @ new)) \<le> 2" for v
    using assms(1) other [of v] fresh le_trans [OF length_filter_le [of "\<lambda>x. fst x = t" new] assms(5)]
    by (cases "v = t") (auto simp: throttled_def)
  moreover have "fst x + d \<le> fst y" if x: "x \<in> set (log @ new)" and y: "y \<in> set (log @ new)" and lt: "fst x < fst y" for x y
  proof (cases "x \<in> set log")
    case True
    then show ?thesis
      using assms(1,2,4) y lt by (cases "y \<in> set log") (auto simp: throttled_def)
  next
    case False
    with x assms(4) have "fst x = t" by auto
    with assms(2-4) y lt have False by fastforce
    then show ?thesis ..
  qed
  ultimately show ?thesis by (simp add: throttled_def)
qed

text \<open>What one load reads and returns, in terms of the log of the reads.\<close>

lemma load_watched:
  assumes "loadCertificatePair (watched readFile t) keyPair sum256 certPath kPath (w, log) = (res, (w', log'))"
  shows "\<exists>new. log' = log @ new \<and> length new \<le> 2 \<and> (\<forall>x \<in> set new. fst x = t) \<and>
    (\<forall>cert fp. res = Inr (cert, fp) \<longrightarrow> (\<exists>c k. (t, certPath, Inr c) \<in> set new \<and> (t, kPath, Inr k) \<in> set new \<and>
       keyPair c k = Inr cert \<and> fp = \<lparr>fp_certificate = sum256 c, fp_privateKey = sum256 k\<rparr>))"
proof -
  obtain fc w1 where c: "readFile certPath w = (fc, w1)" by (metis surj_pair)
  obtain fk w2 where k: "readFile kPath w1 = (fk, w2)" by (metis surj_pair)
  show ?thesis
  proof (cases fc)
    case (Inl e)
    with assms c show ?thesis by (intro exI [of _ "[(t, certPath, fc)]"]) (auto simp: loadCertificatePair_def)
  next
    case (Inr pem)
    with assms c k show ?thesis
      by (intro exI [of _ "[(t, certPath, fc), (t, kPath, fk)]"])
         (auto simp: loadCertificatePair_def split: sum.splits)
  qed
qed

lemma read_pair_mono: "read_pair r log c k \<Longrightarrow> set log \<subseteq> set log' \<Longrightarrow> certificatePath r' = certificatePath r \<Longrightarrow>
    keyPath r' = keyPath r \<Longrightarrow> read_pair r' log' c k"
  by (fastforce simp: read_pair_def)

lemma from_reads_mono: "from_reads keyPair r log cert \<Longrightarrow> set log \<subseteq> set log' \<Longrightarrow> certificatePath r' = certificatePath r \<Longrightarrow>
    keyPath r' = keyPath r \<Longrightarrow> from_reads keyPair r' log' cert"
  unfolding from_reads_def by (meson read_pair_mono)

lemma cert_inv_init:
  assumes "cert_init readFile keyPair sum256 s"
  shows "cert_inv keyPair sum256 s"
proof -
  obtain t0 t certPath kPath interval w w' r log where i: "0 < interval" "t0 \<le> t"
    and new: "newCertificateReloader (watched readFile t0) keyPair sum256 t certPath kPath interval (w, []) = (Inr r, (w', log))"
    and s: "s = \<lparr>cs_reloader = r, cs_clock = t, cs_log = log, cs_served = []\<rparr>"
    using assms unfolding cert_init_def by blast
  from new obtain cert fp where l: "loadCertificatePair (watched readFile t0) keyPair sum256 certPath kPath (w, []) = (Inr (cert, fp), (w', log))"
    and r: "r = \<lparr>certificatePath = certPath, keyPath = kPath, reloadInterval = interval,
                nextCheck = t + interval, certificate = cert, fingerprint = fp\<rparr>"
    by (auto simp: newCertificateReloader_def time_Add_def split: prod.splits sum.splits)
  from load_watched [OF l] obtain log1 where "log = [] @ log1" "length log1 \<le> 2" "\<forall>x \<in> set log1. fst x = t0"
    and src: "\<exists>c k. (t0, certPath, Inr c) \<in> set log1 \<and> (t0, kPath, Inr k) \<in> set log1 \<and>
       keyPair c k = Inr cert \<and> fp = \<lparr>fp_certificate = sum256 c, fp_privateKey = sum256 k\<rparr>"
    by blast
  moreover from this have "throttled interval log1"
    using throttled_append [of interval "[]" t0 log1] i(1) by (simp add: throttled_def)
  ultimately show ?thesis using i by (auto simp: cert_inv_def s r read_pair_def)
qed

lemma getCertificate_watched:
  assumes "getCertificate (watched readFile t) keyPair sum256 t r (w, log) = (cert, r', l, (w', log'))"
  shows "cert = certificate r' \<and> certificatePath r' = certificatePath r \<and> keyPath r' = keyPath r \<and>
     reloadInterval r' = reloadInterval r \<and>
     (if t < nextCheck r then r' = r \<and> log' = log
      else nextCheck r' = t + reloadInterval r \<and>
        (\<exists>new. log' = log @ new \<and> length new \<le> 2 \<and> (\<forall>x \<in> set new. fst x = t) \<and>
          (certificate r' = certificate r \<and> fingerprint r' = fingerprint r \<or>
           (\<exists>c k. read_pair r new c k \<and> keyPair c k = Inr (certificate r') \<and>
              fingerprint r' = \<lparr>fp_certificate = sum256 c, fp_privateKey = sum256 k\<rparr>))))"
proof (cases "t < nextCheck r")
  case True
  with assms show ?thesis by (auto simp: getCertificate_def)
next
  case False
  obtain res w1 log1 where l: "loadCertificatePair (watched readFile t) keyPair sum256 (certificatePath r) (keyPath r) (w, log) =
      (res, (w1, log1))" by (metis surj_pair)
  from load_watched [OF l] obtain new where n: "log1 = log @ new" "length new \<le> 2" "\<forall>x \<in> set new. fst x = t"
    and src: "\<forall>cert fp. res = Inr (cert, fp) \<longrightarrow> (\<exists>c k. (t, certificatePath r, Inr c) \<in> set new \<and> (t, keyPath r, Inr k) \<in> set new \<and>
       keyPair c k = Inr cert \<and> fp = \<lparr>fp_certificate = sum256 c, fp_privateKey = sum256 k\<rparr>)"
    by blast
  show ?thesis
  proof (cases res)
    case (Inl e)
    with assms False l n show ?thesis by (auto simp: getCertificate_def Let_def time_Add_def)
  next
    case (Inr p)
    obtain c fp where p: "p = (c, fp)" by (metis surj_pair)
    have "\<exists>x y. read_pair r new x y \<and> keyPair x y = Inr c \<and> fp = \<lparr>fp_certificate = sum256 x, fp_privateKey = sum256 y\<rparr>"
      using src Inr p unfolding read_pair_def by blast
    with assms False l n Inr p show ?thesis
      by (auto simp: getCertificate_def Let_def time_Add_def split: if_splits) blast
  qed
qed

lemma cert_inv_step:
  assumes "cert_step readFile keyPair sum256 s s'" and "cert_inv keyPair sum256 s"
  shows "cert_inv keyPair sum256 s'"
  using assms(1)
proof cases
  case (handshake t w cert r l w' log)
  note g = getCertificate_watched [OF handshake(3)]
  let ?r = "cs_reloader s"
  have paths: "certificatePath r = certificatePath ?r" "keyPath r = keyPath ?r" "reloadInterval r = reloadInterval ?r"
    using g by auto
  show ?thesis
  proof (cases "t < nextCheck ?r")
    case True
    with g have "r = ?r" "log = cs_log s" "cert = certificate ?r" by auto
    with assms(2) handshake(1,2) show ?thesis by (fastforce simp: cert_inv_def from_reads_def)
  next
    case False
    with g obtain new where n: "log = cs_log s @ new" "length new \<le> 2" "\<forall>x \<in> set new. fst x = t"
      "nextCheck r = t + reloadInterval ?r" "cert = certificate r"
      and src: "certificate r = certificate ?r \<and> fingerprint r = fingerprint ?r \<or>
           (\<exists>c k. read_pair ?r new c k \<and> keyPair c k = Inr (certificate r) \<and>
              fingerprint r = \<lparr>fp_certificate = sum256 c, fp_privateKey = sum256 k\<rparr>)"
      by auto
    have sub: "set (cs_log s) \<subseteq> set log" "set new \<subseteq> set log" using n(1) by auto
    have cur: "\<exists>c k. read_pair r log c k \<and> keyPair c k = Inr (certificate r) \<and>
        fingerprint r = \<lparr>fp_certificate = sum256 c, fp_privateKey = sum256 k\<rparr>"
      using src
    proof
      assume "certificate r = certificate ?r \<and> fingerprint r = fingerprint ?r"
      with assms(2) read_pair_mono [OF _ sub(1) paths(1,2)] show ?thesis unfolding cert_inv_def by metis
    qed (use read_pair_mono [OF _ sub(2) paths(1,2)] in blast)
    moreover have "\<forall>x \<in> set (cs_served s). from_reads keyPair r log x"
      using assms(2) from_reads_mono [OF _ sub(1) paths(1,2)] by (auto simp: cert_inv_def)
    moreover have "throttled (reloadInterval ?r) log"
      unfolding n(1) using assms(2) False n(2,3)
      by (intro throttled_append [where t = t]) (fastforce simp: cert_inv_def)+
    moreover have "\<forall>x \<in> set log. fst x + reloadInterval ?r \<le> nextCheck r"
      using assms(2) False n by (auto simp: cert_inv_def)
    ultimately show ?thesis
      using assms(2) handshake(1) n(4,5) paths(3) by (auto simp: cert_inv_def from_reads_def)
  qed
qed

interpretation certs: inductive_invariant "cert_init readFile keyPair sum256" "cert_step readFile keyPair sum256" "cert_inv keyPair sum256"
  for readFile :: "'w file_reader" and keyPair :: "string \<Rightarrow> string \<Rightarrow> err + 'c" and sum256
  by unfold_locales (auto intro: cert_inv_init cert_inv_step)

lemma newCertificateReloader_Inr:
  "fst (newCertificateReloader readFile keyPair sum256 t certPath kPath interval w) = Inr r \<longleftrightarrow>
     (\<exists>cert fp. fst (loadCertificatePair readFile keyPair sum256 certPath kPath w) = Inr (cert, fp) \<and>
        r = \<lparr>certificatePath = certPath, keyPath = kPath, reloadInterval = interval,
             nextCheck = t + interval, certificate = cert, fingerprint = fp\<rparr>)"
  by (cases "loadCertificatePair readFile keyPair sum256 certPath kPath w"; cases "fst (loadCertificatePair readFile keyPair sum256 certPath kPath w)")
     (auto simp: newCertificateReloader_def time_Add_def)

section \<open>Properties\<close>

text \<open>
  C35: A handshake after the check is due serves the pair now on disk when both files can be read and
  form a pair, and the previous certificate otherwise; before that it serves the previous certificate.
  The only thing asked of the hash is that the contents just read do not collide with the contents
  \<open>c0\<close> and \<open>k0\<close> the previous certificate was made from.
\<close>

theorem certificate_follows_files:
  assumes "keyPair c0 k0 = Inr (certificate r)"
    and "fingerprint r = \<lparr>fp_certificate = sum256 c0, fp_privateKey = sum256 k0\<rparr>"
    and "readFile (certificatePath r) w = (fc, w1)" and "readFile (keyPath r) w1 = (fk, w2)"
    and "\<And>c. fc = Inr c \<Longrightarrow> sum256 c = sum256 c0 \<Longrightarrow> c = c0" and "\<And>k. fk = Inr k \<Longrightarrow> sum256 k = sum256 k0 \<Longrightarrow> k = k0"
  shows "fst (getCertificate readFile keyPair sum256 t r w) =
     (if t < nextCheck r then certificate r
      else (case (fc, fk) of
              (Inr c, Inr k) \<Rightarrow> (case keyPair c k of Inr cert \<Rightarrow> cert | Inl _ \<Rightarrow> certificate r)
            | _ \<Rightarrow> certificate r))"
proof -
  have "keyPair c k = Inr (certificate r)"
    if "fc = Inr c" "fk = Inr k" "\<lparr>fp_certificate = sum256 c, fp_privateKey = sum256 k\<rparr> = fingerprint r" for c k
    using that assms by auto
  then show ?thesis
    using assms(3,4) by (auto simp: getCertificate_def loadCertificatePair_def Let_def split: sum.splits)
qed

definition demo_read :: "string \<Rightarrow> string \<Rightarrow> (err + string) \<times> string" where
  "demo_read path w =
     (if path = ''k.pem'' then (Inr ''key'', w) else if w = '''' then (Inl EOF, w) else (Inr w, w))"

text \<open>A digest of fixed length, with collisions.\<close>

definition demo_sum :: "string \<Rightarrow> string" where
  "demo_sum s = take 4 (s @ replicate 4 CHR '' '')"

theorem certificate_follows_files_witness:
  "fst (getCertificate demo_read (\<lambda>c k. Inr (c @ k)) demo_sum 100
     \<lparr>certificatePath = ''c.pem'', keyPath = ''k.pem'', reloadInterval = 60, nextCheck = 100, certificate = ''oldkey'',
      fingerprint = \<lparr>fp_certificate = demo_sum ''old'', fp_privateKey = demo_sum ''key''\<rparr>\<rparr> ''new'') = ''newkey''"
  (is "fst (getCertificate demo_read ?kp demo_sum 100 ?r ''new'') = _")
proof -
  have r: "demo_read (certificatePath ?r) ''new'' = (Inr ''new'', ''new'')" "demo_read (keyPath ?r) ''new'' = (Inr ''key'', ''new'')"
    by (simp_all add: demo_read_def)
  show ?thesis
    using certificate_follows_files [of ?kp "''old''" "''key''" ?r demo_sum demo_read "''new''", OF _ _ r]
    by (simp add: demo_sum_def)
qed

text \<open>
  C36: However handshakes are interleaved with changes of the files, every certificate handed out,
  also while reloading fails, was parsed from the contents that the reads of the certificate file and
  of the key file returned at one check; the certificate kept is one of these, with the fingerprint of
  its contents; and the files are read at most once per reload interval: two reads at different
  instants are at least the interval apart, and no instant has more than two reads.
\<close>

theorem served_certificates_valid:
  assumes "reachable (cert_init readFile keyPair sum256) (cert_step readFile keyPair sum256) s"
  shows "(\<forall>cert \<in> set (cs_served s). \<exists>c k u. (u, certificatePath (cs_reloader s), Inr c) \<in> set (cs_log s) \<and>
            (u, keyPath (cs_reloader s), Inr k) \<in> set (cs_log s) \<and> keyPair c k = Inr cert) \<and>
         (\<exists>c k. read_pair (cs_reloader s) (cs_log s) c k \<and> keyPair c k = Inr (certificate (cs_reloader s)) \<and>
            fingerprint (cs_reloader s) = \<lparr>fp_certificate = sum256 c, fp_privateKey = sum256 k\<rparr>) \<and>
         throttled (reloadInterval (cs_reloader s)) (cs_log s) \<and>
         nextCheck (cs_reloader s) \<le> cs_clock s + reloadInterval (cs_reloader s)"
  using certs.reachable_inv [OF assms] unfolding cert_inv_def from_reads_def read_pair_def by blast

definition demo_cert_sys :: "string cert_sys" where
  "demo_cert_sys =
     \<lparr>cs_reloader = \<lparr>certificatePath = ''c.pem'', keyPath = ''k.pem'', reloadInterval = 60, nextCheck = 160, certificate = ''oldkey'',
        fingerprint = \<lparr>fp_certificate = demo_sum ''old'', fp_privateKey = demo_sum ''key''\<rparr>\<rparr>,
      cs_clock = 100, cs_log = [(40, ''c.pem'', Inr ''old''), (40, ''k.pem'', Inr ''key''), (100, ''c.pem'', Inl EOF)],
      cs_served = [''oldkey'']\<rparr>"

lemma demo_cert_reachable:
  "reachable (cert_init demo_read (\<lambda>c k. Inr (c @ k)) demo_sum) (cert_step demo_read (\<lambda>c k. Inr (c @ k)) demo_sum) demo_cert_sys"
proof -
  let ?r = "\<lparr>certificatePath = ''c.pem'', keyPath = ''k.pem'', reloadInterval = 60, nextCheck = 100, certificate = ''oldkey'',
        fingerprint = \<lparr>fp_certificate = demo_sum ''old'', fp_privateKey = demo_sum ''key''\<rparr>\<rparr>"
  let ?l = "[(40, ''c.pem'', Inr ''old''), (40, ''k.pem'', Inr ''key'')] :: read_log"
  let ?s = "\<lparr>cs_reloader = ?r, cs_clock = 40, cs_log = ?l, cs_served = []\<rparr>"
  have "newCertificateReloader (watched demo_read 40) (\<lambda>c k. Inr (c @ k)) demo_sum 40 ''c.pem'' ''k.pem'' 60 (''old'', []) =
      (Inr ?r, (''old'', ?l))"
    by (simp add: newCertificateReloader_def loadCertificatePair_def time_Add_def demo_read_def)
  moreover have "(0 :: int) < 60" "(40 :: int) \<le> 40" by simp_all
  ultimately have "cert_init demo_read (\<lambda>c k. Inr (c @ k)) demo_sum ?s" unfolding cert_init_def by blast
  then have "reachable (cert_init demo_read (\<lambda>c k. Inr (c @ k)) demo_sum) (cert_step demo_read (\<lambda>c k. Inr (c @ k)) demo_sum) ?s"
    by (rule reach_init)
  moreover have "getCertificate (watched demo_read 100) (\<lambda>c k. Inr (c @ k)) demo_sum 100 ?r ('''', ?l) =
      (''oldkey'', ?r\<lparr>nextCheck := 160\<rparr>, [Log LWarn ''Could not reload TLS certificate; keeping the previous certificate''
         [(''error'', LErr (Wrapf ''read TLS certificate: %w'' [] EOF))]], ('''', ?l @ [(100, ''c.pem'', Inl EOF)]))"
    by (simp add: getCertificate_def loadCertificatePair_def time_Add_def demo_read_def)
  then have "cert_step demo_read (\<lambda>c k. Inr (c @ k)) demo_sum ?s demo_cert_sys"
    using handshake [of ?s 100 demo_read "\<lambda>c k. Inr (c @ k)" demo_sum "''''"] by (simp add: demo_cert_sys_def)
  ultimately show ?thesis by (rule reach_step)
qed

theorem served_certificates_valid_witness:
  "cs_served demo_cert_sys = [''oldkey''] \<and> throttled 60 (cs_log demo_cert_sys) \<and> length (cs_log demo_cert_sys) = 3 \<and>
   nextCheck (cs_reloader demo_cert_sys) \<le> 160"
  using served_certificates_valid [OF demo_cert_reachable] by (simp add: demo_cert_sys_def)

end
