(* ===== verification/Run.thy ===== *)
theory Run
  imports Server_State Certificate
begin

text \<open>
  The life of the process, \<^verbatim>\<open>internal/proxy/run.go\<close> and \<^verbatim>\<open>cmd/https_proxy/main.go\<close>.

  What lies outside is a field of \<open>run_env\<close>: the files and \<^verbatim>\<open>tls.X509KeyPair\<close>, \<^verbatim>\<open>net.Listen\<close>, the outcome
  of the \<^verbatim>\<open>select\<close> between the serving goroutine and the context, \<^verbatim>\<open>Shutdown\<close>, and what the request
  handlers did to the server up to the cancellation and while it shuts down.  \<open>re_Wait\<close> is the
  result of \<^verbatim>\<open>Registry.Wait\<close>, which the theorems require to be one the relation \<open>Wait\<close> allows.
\<close>

section \<open>Building the HTTP server and the listener\<close>

record HTTP2Config =
  h2_MaxConcurrentStreams :: int
  h2_PingTimeout :: duration
  h2_SendPingTimeout :: duration
  h2_WriteByteTimeout :: duration

record 'c tls_Config =
  tls_GetCertificate :: "'c certificateReloader"  \<comment> \<open>the receiver of the method value\<close>
  tls_MinVersion :: nat
  tls_NextProtos :: "string list"

record 'c http_Server =
  hs_Addr :: string
  hs_HTTP2 :: HTTP2Config
  hs_ReadHeaderTimeout :: duration
  hs_IdleTimeout :: duration
  hs_MaxHeaderBytes :: int
  hs_TLSConfig :: "'c tls_Config option"

record 'c run_listener =
  rl_network :: string
  rl_address :: string
  rl_limits :: limitedListener
  rl_tls :: "'c tls_Config option"

definition effectiveHTTP2MaxConcurrentStreams :: "Config \<Rightarrow> int" where
  "effectiveHTTP2MaxConcurrentStreams cfg =
     (if 0 < HTTP2MaxConcurrentStreams cfg then HTTP2MaxConcurrentStreams cfg
      else min (MaxTunnels cfg) (MaxTunnelsPerIP cfg))"

definition newHTTPServer :: "Config \<Rightarrow> 'c http_Server" where
  "newHTTPServer cfg =
     \<lparr>hs_Addr = ProxyAddr cfg,
      hs_HTTP2 = \<lparr>h2_MaxConcurrentStreams = effectiveHTTP2MaxConcurrentStreams cfg, h2_PingTimeout = HTTP2PingTimeout cfg,
        h2_SendPingTimeout = HTTP2SendPingTimeout cfg, h2_WriteByteTimeout = HTTP2WriteByteTimeout cfg\<rparr>,
      hs_ReadHeaderTimeout = ReadHeaderTimeout cfg, hs_IdleTimeout = IdleTimeout cfg,
      hs_MaxHeaderBytes = MaxHeaderBytes cfg, hs_TLSConfig = None\<rparr>"

record ('c, 'f) run_env =
  re_parse :: "string \<Rightarrow> url option"
  re_String :: "url \<Rightarrow> string"
  re_Redacted :: "url \<Rightarrow> string"
  re_ProxyFromEnvironment :: "Request \<Rightarrow> err + url option"
  re_sum256 :: "string \<Rightarrow> string"
  re_ReadFile :: "'f file_reader"
  re_files :: 'f                          \<comment> \<open>the file system when the certificate is loaded\<close>
  re_X509KeyPair :: "string \<Rightarrow> string \<Rightarrow> err + 'c"
  re_Now :: time
  re_Listen :: "string \<Rightarrow> string \<Rightarrow> err option"
  re_select :: "err option"               \<comment> \<open>\<open>Some e\<close>: \<^verbatim>\<open>Serve\<close> returned \<open>e\<close>; \<open>None\<close>: the context is done\<close>
  re_serving :: "Server \<Rightarrow> Server"        \<comment> \<open>the handlers, up to the cancellation\<close>
  re_Shutdown :: "err option"
  re_draining :: "Server \<Rightarrow> Server"       \<comment> \<open>the handlers, from \<^verbatim>\<open>CloseAll\<close> to the return of \<^verbatim>\<open>Wait\<close>\<close>
  re_Wait :: "Registry \<Rightarrow> err option"
  re_serveResult :: err                   \<comment> \<open>what \<^verbatim>\<open>Serve\<close> returns in the end; it is never \<^verbatim>\<open>nil\<close>\<close>

text \<open>\<^verbatim>\<open>tls.VersionTLS12\<close>\<close>

definition VersionTLS12 :: nat where
  "VersionTLS12 = 0x0303"

definition makeListener :: "('c, 'f) run_env \<Rightarrow> Config \<Rightarrow> 'c http_Server \<Rightarrow> err + 'c run_listener \<times> 'c http_Server" where
  "makeListener env cfg server =
     (let tlsConfig =
        (if Proto cfg = ''https'' then
           (case fst (newCertificateReloader (re_ReadFile env) (re_X509KeyPair env) (re_sum256 env) (re_Now env)
                        (CertPath cfg) (KeyPath cfg) (TLSReloadInterval cfg) (re_files env)) of
              Inl e \<Rightarrow> Inl (Wrapf ''load certificate: %w'' [] e)
            | Inr reloader \<Rightarrow>
                Inr (Some \<lparr>tls_GetCertificate = reloader, tls_MinVersion = VersionTLS12, tls_NextProtos = [''h2'', ''http/1.1'']\<rparr>))
         else Inr None)
      in
      case tlsConfig of
        Inl e \<Rightarrow> Inl e
      | Inr tlsConfig \<Rightarrow>
          let server = (case tlsConfig of None \<Rightarrow> server | Some c \<Rightarrow> server\<lparr>hs_TLSConfig := Some c\<rparr>) in
          (case re_Listen env ''tcp'' (ProxyAddr cfg) of
             Some e \<Rightarrow> Inl (Wrapf ''create listener: %w'' [] e)
           | None \<Rightarrow>
               Inr (\<lparr>rl_network = ''tcp'', rl_address = ProxyAddr cfg,
                     rl_limits = newLimitedListener (MaxConnections cfg) (MaxConnectionsPerIP cfg), rl_tls = tlsConfig\<rparr>,
                    server)))"

section \<open>Run\<close>

text \<open>The effects of \<^verbatim>\<open>Run\<close> in order; \<open>TunnelsClosed\<close> carries the connections \<^verbatim>\<open>CloseAll\<close> closes.\<close>

datatype run_event =
    Listening | ListenerClosed | Serving
  | TunnelsClosed "nat list" | ShutdownCalled | ServerClosed | TunnelsWaited

definition errors_Join :: "err option list \<Rightarrow> err option" where
  "errors_Join es = (case List.map_filter id es of [] \<Rightarrow> None | es \<Rightarrow> Some (Joined es))"

text \<open>The part after \<^verbatim>\<open>ctx.Done()\<close>, on the server as the handlers left it.\<close>

definition shutdownServer :: "('c, 'f) run_env \<Rightarrow> Server \<Rightarrow> err option \<times> run_event list \<times> Server" where
  "shutdownServer env p =
     (case CloseAll_begin (srv_tunnels p) of
        (tunnels, pairs) \<Rightarrow>
          let p = p\<lparr>srv_tunnels := tunnels\<rparr>;
              shutdownErr = re_Shutdown env;
              p = re_draining env p;
              tunnelErr = re_Wait env (srv_tunnels p);
              serveErr = (if errors_Is (re_serveResult env) ErrServerClosed then None else Some (re_serveResult env))
          in (errors_Join [shutdownErr, tunnelErr, serveErr],
              [TunnelsClosed (CloseAll_calls pairs), ShutdownCalled] @ (if shutdownErr \<noteq> None then [ServerClosed] else []) @ [TunnelsWaited],
              p))"

definition startupAttributes :: "Config \<Rightarrow> (string \<times> log_value) list" where
  "startupAttributes cfg =
     [(''addr'', LStr (ProxyAddr cfg)), (''proto'', LStr (Proto cfg)), (''privacy_mode'', LBool (PrivacyMode cfg))] @
     (if Proto cfg = ''https'' then
        [(''http2_max_concurrent_streams'', LInt (effectiveHTTP2MaxConcurrentStreams cfg)),
         (''http2_send_ping_timeout'', LDur (HTTP2SendPingTimeout cfg)),
         (''http2_ping_timeout'', LDur (HTTP2PingTimeout cfg)),
         (''http2_write_byte_timeout'', LDur (HTTP2WriteByteTimeout cfg))]
      else [])"

definition probeRequest :: Request where
  "probeRequest =
     \<lparr>req_Method = '''', req_URL = empty_url\<lparr>url_Scheme := ''https'', url_Host := ''example.com:443''\<rparr>,
      req_ProtoMajor = 0, req_ProtoMinor = 0, req_Header = [], req_Host = '''', req_RemoteAddr = ''''\<rparr>"

text \<open>The result, the effects, the log, and the server at the end if one was built.\<close>

definition Run :: "('c, 'f) run_env \<Rightarrow> Config \<Rightarrow> err option \<times> run_event list \<times> log_entry list \<times> Server option" where
  "Run env cfg =
     (case validateConfig (re_parse env) cfg of
        (cfg, Some e) \<Rightarrow> (Some e, [], [], None)
      | (cfg, None) \<Rightarrow>
          (case NewServer (re_parse env) (re_String env) (re_sum256 env) (re_ProxyFromEnvironment env) cfg of
             Inl e \<Rightarrow> (Some e, [], [], None)
           | Inr proxyServer \<Rightarrow>
               let warned = (if LogSensitiveData cfg
                    then [Log LWarn ''Sensitive logging enabled; full request URLs, upstream errors, and rejected credentials may be written to logs'' []]
                    else [])
               in
               (case makeListener env cfg (newHTTPServer cfg) of
                  Inl e \<Rightarrow> (Some e, [], warned, Some proxyServer)
                | Inr (listener, server) \<Rightarrow>
                    (case srv_proxyFunc proxyServer probeRequest of
                       Inl e \<Rightarrow> (Some (Wrapf ''resolve upstream proxy: %w'' [] e), [Listening, ListenerClosed], warned, Some proxyServer)
                     | Inr upstream \<Rightarrow>
                         let started = warned @
                               (case upstream of
                                  None \<Rightarrow> []
                                | Some u \<Rightarrow> [Log LInfo ''Upstream proxy configured'' [(''upstream'', LStr (re_Redacted env u))]]) @
                               [Log LInfo ''Starting proxy server'' (startupAttributes cfg)];
                             p = re_serving env proxyServer
                         in
                         (case re_select env of
                            Some e \<Rightarrow>
                              (if errors_Is e ErrServerClosed then None else Some (Wrapf ''serve proxy: %w'' [] e),
                               [Listening, Serving], started, Some p)
                          | None \<Rightarrow>
                              (case shutdownServer env p of
                                 (e, events, p) \<Rightarrow>
                                   (e, [Listening, Serving] @ events,
                                    started @ [Log LInfo ''Shutting down proxy server...'' []], Some p)))))))"

text \<open>The exit code of the process and what \<^verbatim>\<open>main\<close> itself logs.\<close>

definition main ::
  "(string \<Rightarrow> err + string) \<Rightarrow> (string \<Rightarrow> Config \<Rightarrow> err + Config) \<Rightarrow> (string \<Rightarrow> err option) \<Rightarrow> (string \<Rightarrow> duration option) \<Rightarrow>
   (string \<Rightarrow> string) \<Rightarrow> ('c, 'f) run_env \<Rightarrow> string \<Rightarrow> int \<times> log_entry list" where
  "main open_file decode_first decode_next parse_duration getenv env configPath =
     (case Load open_file decode_first decode_next parse_duration (re_parse env) getenv configPath of
        Inl e \<Rightarrow> (1, [Log LError ''Error loading config file'' [(''error'', LErr e)]])
      | Inr cfg \<Rightarrow>
          (case Run env cfg of
             (Some e, _, l, _) \<Rightarrow> (1, l @ [Log LError ''Proxy server stopped with error'' [(''error'', LErr e)]])
           | (None, _, l, _) \<Rightarrow> (0, l @ [Log LInfo ''Server stopped'' []])))"

section \<open>Properties\<close>

lemma errors_Join_None: "errors_Join es = None \<longleftrightarrow> (\<forall>e \<in> set es. e = None)"
proof -
  have "List.map_filter id es = [] \<longleftrightarrow> (\<forall>e \<in> set es. e = None)"
    by (induction es) (auto simp: List.map_filter_simps split: option.splits)
  then show ?thesis by (auto simp: errors_Join_def split: list.splits)
qed

lemma Run_built:
  assumes "Run env cfg = (res, events, l, Some p)"
  obtains p0 where "NewServer (re_parse env) (re_String env) (re_sum256 env) (re_ProxyFromEnvironment env) (normalized cfg) = Inr p0"
    "config_valid (re_parse env) (normalized cfg)"
proof -
  obtain c e where v: "validateConfig (re_parse env) cfg = (c, e)" by (metis surj_pair)
  have e: "e = None" using assms v by (cases e) (auto simp: Run_def)
  with v have c: "c = normalized cfg" "config_valid (re_parse env) (normalized cfg)" by (auto simp: validateConfig_iff)
  with assms v e that show ?thesis
    by (auto simp: Run_def split: sum.splits)
qed

text \<open>
  C37: The number of HTTP/2 streams a client connection may open is positive and never exceeds the
  tunnel limits, whether it is configured or derived.
\<close>

theorem http2_streams_bounded:
  assumes "config_valid parse cfg"
  shows "h2_MaxConcurrentStreams (hs_HTTP2 (newHTTPServer cfg)) \<in> {1..min (MaxTunnels cfg) (MaxTunnelsPerIP cfg)}"
  using assms by (auto simp: newHTTPServer_def effectiveHTTP2MaxConcurrentStreams_def config_valid_def)

theorem http2_streams_bounded_witness:
  "h2_MaxConcurrentStreams (hs_HTTP2 (newHTTPServer defaultConfig)) \<in> {1..128}"
proof -
  have "config_valid (\<lambda>_. None) defaultConfig" using default_valid [of "\<lambda>_. None"] by (metis validateConfig_iff)
  from http2_streams_bounded [OF this] show ?thesis by (simp add: defaultConfig_def)
qed

text \<open>
  C38: The process starts to listen only with a valid configuration and, for https, a certificate
  that loaded; the listener then has the configured address and connection limits, and it is closed
  again or served.
\<close>

theorem listens_only_when_ready:
  assumes "Run env cfg = (res, events, l, q)" and "Listening \<in> set events"
  shows "\<exists>listener server. config_valid (re_parse env) (normalized cfg) \<and>
     makeListener env (normalized cfg) (newHTTPServer (normalized cfg)) = Inr (listener, server) \<and>
     rl_address listener = ProxyAddr cfg \<and>
     rl_limits listener = newLimitedListener (MaxConnections cfg) (MaxConnectionsPerIP cfg) \<and>
     (ToLower (TrimSpace (Proto cfg)) = ''https'' \<longrightarrow>
        (\<exists>cert fp. fst (loadCertificatePair (re_ReadFile env) (re_X509KeyPair env) (re_sum256 env) (CertPath cfg) (KeyPath cfg) (re_files env))
           = Inr (cert, fp))) \<and>
     (ListenerClosed \<in> set events \<or> Serving \<in> set events)"
proof -
  obtain c e where v: "validateConfig (re_parse env) cfg = (c, e)" by (metis surj_pair)
  have e: "e = None" using assms v by (cases e) (auto simp: Run_def)
  with v have c: "c = normalized cfg" and ok: "config_valid (re_parse env) (normalized cfg)" by (auto simp: validateConfig_iff)
  have n: "ProxyAddr (normalized cfg) = ProxyAddr cfg" "MaxConnections (normalized cfg) = MaxConnections cfg"
    "MaxConnectionsPerIP (normalized cfg) = MaxConnectionsPerIP cfg" "CertPath (normalized cfg) = CertPath cfg"
    "KeyPath (normalized cfg) = KeyPath cfg" "Proto (normalized cfg) = ToLower (TrimSpace (Proto cfg))"
    by (simp_all add: normalized_def)
  obtain p0 where p0: "NewServer (re_parse env) (re_String env) (re_sum256 env) (re_ProxyFromEnvironment env) (normalized cfg) = Inr p0"
    using assms v e c by (auto simp: Run_def split: sum.splits)
  obtain listener server where ml: "makeListener env (normalized cfg) (newHTTPServer (normalized cfg)) = Inr (listener, server)"
    using assms v e c p0 by (auto simp: Run_def Let_def split: sum.splits)
  have ev: "ListenerClosed \<in> set events \<or> Serving \<in> set events"
    using assms v e c p0 ml by (auto simp: Run_def Let_def split: sum.splits option.splits prod.splits)
  have "rl_address listener = ProxyAddr cfg" "rl_limits listener = newLimitedListener (MaxConnections cfg) (MaxConnectionsPerIP cfg)"
    "Proto (normalized cfg) = ''https'' \<Longrightarrow> \<exists>cert fp. fst (loadCertificatePair (re_ReadFile env) (re_X509KeyPair env)
       (re_sum256 env) (CertPath cfg) (KeyPath cfg) (re_files env)) = Inr (cert, fp)"
    using ml by (auto simp: makeListener_def Let_def n newCertificateReloader_Inr split: if_splits sum.splits option.splits)
  with ok ml ev n(6) show ?thesis by auto
qed

definition demo_run_env :: "(string, string) run_env" where
  "demo_run_env =
     \<lparr>re_parse = (\<lambda>_. None), re_String = (\<lambda>_. ''''), re_Redacted = (\<lambda>_. ''''), re_ProxyFromEnvironment = (\<lambda>_. Inr None), re_sum256 = id,
      re_ReadFile = demo_read, re_files = ''cert'', re_X509KeyPair = (\<lambda>c k. Inr (c @ k)), re_Now = 0,
      re_Listen = (\<lambda>_ _. None), re_select = None, re_serving = (\<lambda>p. p), re_Shutdown = None, re_draining = (\<lambda>p. p),
      re_Wait = (\<lambda>r. if wg r = 0 then None else Some DeadlineExceeded), re_serveResult = ErrServerClosed\<rparr>"

lemma demo_config: "normalized defaultConfig = defaultConfig" "config_valid parse defaultConfig"
  using default_valid [of parse] by (metis validateConfig_iff)+

lemma demo_Run:
  "\<exists>l p. Run demo_run_env defaultConfig =
     (None, [Listening, Serving, TunnelsClosed [], ShutdownCalled, TunnelsWaited], l, Some p)"
proof -
  have cf: "UpstreamProxy defaultConfig = ''''" "Network defaultConfig = ''auto''" by (simp_all add: defaultConfig_def)
  have "\<exists>p. NewServer (re_parse demo_run_env) (re_String demo_run_env) (re_sum256 demo_run_env)
      (re_ProxyFromEnvironment demo_run_env) defaultConfig = Inr p \<and> srv_proxyFunc p probeRequest = Inr None \<and> srv_tunnels p = NewRegistry"
    by (simp add: NewServer_def default_valid buildProxyFuncWithEnvironment_def DirectUpstream_def DialNetwork_def cf)
       (simp add: demo_run_env_def)
  then obtain p where p: "NewServer (re_parse demo_run_env) (re_String demo_run_env) (re_sum256 demo_run_env)
      (re_ProxyFromEnvironment demo_run_env) defaultConfig = Inr p" "srv_proxyFunc p probeRequest = Inr None"
    "srv_tunnels p = NewRegistry" by blast
  have ml: "\<exists>a b. makeListener demo_run_env defaultConfig (newHTTPServer defaultConfig) = Inr (a, b)"
    by (simp add: makeListener_def demo_run_env_def defaultConfig_def)
  have s: "shutdownServer demo_run_env p =
      (None, [TunnelsClosed [], ShutdownCalled, TunnelsWaited], p\<lparr>srv_tunnels := NewRegistry\<lparr>closing := True\<rparr>\<rparr>)"
    by (simp add: shutdownServer_def p demo_run_env_def CloseAll_begin_def NewRegistry_def CloseAll_calls_def errors_Join_def
        List.map_filter_def)
  show ?thesis
    using p ml s default_valid [of "re_parse demo_run_env"] by (auto simp: Run_def Let_def) (simp_all add: demo_run_env_def)
qed

theorem listens_only_when_ready_witness:
  "\<exists>l q. Run demo_run_env defaultConfig = (None, [Listening, Serving, TunnelsClosed [], ShutdownCalled, TunnelsWaited], l, q) \<and>
     config_valid (\<lambda>_. None) defaultConfig"
proof -
  obtain l q where r: "Run demo_run_env defaultConfig = (None, [Listening, Serving, TunnelsClosed [], ShutdownCalled, TunnelsWaited], l, q)"
    using demo_Run by blast
  have "config_valid (re_parse demo_run_env) (normalized defaultConfig)"
    using listens_only_when_ready [OF r] by auto
  with r show ?thesis by (simp add: demo_config(1)) (simp add: demo_run_env_def)
qed

text \<open>
  C25: After a cancellation \<^verbatim>\<open>Run\<close> returns \<^verbatim>\<open>nil\<close> exactly when the HTTP server shut down, every tunnel
  finished in time and the serving goroutine ended because of the shutdown.  Both connections of every
  tunnel open at the cancellation are closed before \<^verbatim>\<open>Shutdown\<close> is called, no tunnel is admitted any
  more, and when \<^verbatim>\<open>Run\<close> returns \<^verbatim>\<open>nil\<close> none is left.
\<close>

theorem shutdown_complete:
  assumes "Run env cfg = (res, events, l, Some p)" and "re_select env = None" and "Serving \<in> set events"
    and "\<And>r. \<exists>ctx. Wait r ctx (re_Wait env r)"
    and "\<And>q. registry_ok (srv_tunnels q) \<Longrightarrow> registry_ok (srv_tunnels (re_serving env q))"
    and "\<And>q. registry_ok (srv_tunnels q) \<Longrightarrow> registry_ok (srv_tunnels (re_draining env q))"
    and "\<And>q. closing (srv_tunnels q) \<Longrightarrow> closing (srv_tunnels (re_draining env q))"
  shows "(res = None \<longleftrightarrow> re_Shutdown env = None \<and> re_Wait env (srv_tunnels p) = None \<and> errors_Is (re_serveResult env) ErrServerClosed) \<and>
     (res = None \<longrightarrow> active (srv_tunnels p) = []) \<and> snd (Track c d (srv_tunnels p)) = None \<and>
     (\<exists>p0 xs rest. events = [Listening, Serving, TunnelsClosed xs, ShutdownCalled] @ rest \<and>
        NewServer (re_parse env) (re_String env) (re_sum256 env) (re_ProxyFromEnvironment env) (normalized cfg) = Inr p0 \<and>
        set xs = (\<Union>pair \<in> set (map snd (active (srv_tunnels (re_serving env p0)))). {client pair, dest pair}))"
proof -
  obtain p0 where p0: "NewServer (re_parse env) (re_String env) (re_sum256 env) (re_ProxyFromEnvironment env) (normalized cfg) = Inr p0"
    and ok: "config_valid (re_parse env) (normalized cfg)" using Run_built [OF assms(1)] by blast
  have v: "validateConfig (re_parse env) cfg = (normalized cfg, None)" using ok by (simp add: validateConfig_iff)
  let ?q = "re_serving env p0"
  let ?q1 = "?q\<lparr>srv_tunnels := (srv_tunnels ?q)\<lparr>closing := True\<rparr>\<rparr>"
  have s: "shutdownServer env ?q = (res, drop 2 events, p)" and e2: "take 2 events = [Listening, Serving]"
    using assms(1-3) v p0 by (auto simp: Run_def Let_def split: sum.splits option.splits prod.splits)
  have p: "p = re_draining env ?q1" and res: "res = errors_Join [re_Shutdown env, re_Wait env (srv_tunnels p),
      if errors_Is (re_serveResult env) ErrServerClosed then None else Some (re_serveResult env)]"
    and ev: "drop 2 events = [TunnelsClosed (CloseAll_calls (map snd (active (srv_tunnels ?q)))), ShutdownCalled] @
      (if re_Shutdown env \<noteq> None then [ServerClosed] else []) @ [TunnelsWaited]"
    using s by (auto simp: shutdownServer_def CloseAll_begin_def Let_def)
  have r0: "registry_ok (srv_tunnels p0)" using NewServer_iff(1) [OF p0] by (simp add: server_ok_def)
  have "registry_ok (srv_tunnels ?q1)" using registry_ok_close [OF assms(5) [OF r0]] by (simp add: CloseAll_begin_def)
  then have r: "registry_ok (srv_tunnels p)" using assms(6) p by simp
  have cl: "closing (srv_tunnels p)" using assms(7) [of ?q1] p by simp
  have iff: "res = None \<longleftrightarrow> re_Shutdown env = None \<and> re_Wait env (srv_tunnels p) = None \<and> errors_Is (re_serveResult env) ErrServerClosed"
    by (auto simp: res errors_Join_None)
  have act: "active (srv_tunnels p) = []" if none: "res = None"
  proof -
    obtain ctx where "Wait (srv_tunnels p) ctx None" using assms(4) [of "srv_tunnels p"] none iff by metis
    then have "wg (srv_tunnels p) = 0" by (auto elim: Wait.cases)
    with r show ?thesis by (simp add: registry_ok_def)
  qed
  have "events = [Listening, Serving] @ drop 2 events" using append_take_drop_id [of 2 events] e2 by simp
  then have "events = [Listening, Serving, TunnelsClosed (CloseAll_calls (map snd (active (srv_tunnels ?q)))), ShutdownCalled] @
      (if re_Shutdown env \<noteq> None then [ServerClosed] else []) @ [TunnelsWaited]" by (simp add: ev)
  with p0 have "\<exists>p0 xs rest. events = [Listening, Serving, TunnelsClosed xs, ShutdownCalled] @ rest \<and>
        NewServer (re_parse env) (re_String env) (re_sum256 env) (re_ProxyFromEnvironment env) (normalized cfg) = Inr p0 \<and>
        set xs = (\<Union>pair \<in> set (map snd (active (srv_tunnels (re_serving env p0)))). {client pair, dest pair})"
    using set_calls by blast
  with iff act cl show ?thesis by (simp add: Track_pair)
qed

theorem shutdown_complete_witness:
  "\<exists>l p. Run demo_run_env defaultConfig = (None, [Listening, Serving, TunnelsClosed [], ShutdownCalled, TunnelsWaited], l, Some p) \<and>
     active (srv_tunnels p) = [] \<and> snd (Track 1 2 (srv_tunnels p)) = None"
proof -
  obtain l p where r: "Run demo_run_env defaultConfig = (None, [Listening, Serving, TunnelsClosed [], ShutdownCalled, TunnelsWaited], l, Some p)"
    using demo_Run by blast
  have w: "\<exists>ctx. Wait reg ctx (re_Wait demo_run_env reg)" for reg
    by (auto simp: demo_run_env_def intro: wait_done wait_ctx)
  have k: "re_select demo_run_env = None" "re_serving demo_run_env = (\<lambda>p. p)" "re_draining demo_run_env = (\<lambda>p. p)"
    by (simp_all add: demo_run_env_def)
  from shutdown_complete [OF r k(1) _ w, of 1 2] k r show ?thesis by simp
qed

end
