(* ===== verification/Spec2Isabelle.thy ===== *)
theory Spec2Isabelle
  imports Server_Connections Server_State Server_Messages Run
begin

text \<open>
  A model of \<^bold>\<open>https_proxy\<close>, an authenticating forward proxy written in Go: it accepts HTTP/1.1 and
  HTTP/2 clients over plain TCP or TLS, authenticates them with Basic credentials, forwards plain
  requests and opens CONNECT tunnels, directly or through an upstream proxy, to destinations a policy
  permits.

  \<^bold>\<open>Parts and their theories.\<close>  Sources are under \<^verbatim>\<open>src/\<close>; definitions keep the names of the Go
  functions and types.

  \<^item> \<open>Go_Prelude\<close>, \<open>Go_Net\<close>, \<open>Go_Http\<close>, \<open>Go_Bufio\<close>, \<open>Netip\<close>, \<open>Base64\<close>: what the program uses of Go and its
    standard library: byte strings, error trees with \<^verbatim>\<open>errors.Is\<close>/\<^verbatim>\<open>As\<close>, instants and 64-bit durations,
    host/port splitting, header maps with canonical keys, response writers, log records, buffered
    readers, IP addresses and prefixes at their 32 and 128 bit widths, and Base64.  \<open>Go_Prelude\<close> also
    holds the locale \<open>inductive_invariant\<close> behind every state-machine invariant.
  \<^item> \<open>Failure_Limiter\<close> (\<^verbatim>\<open>internal/auth/limiter.go\<close>) and \<open>Basic_Auth\<close> (\<^verbatim>\<open>internal/auth/basic.go\<close>): failed
    logins are counted per client in a window, and too many block the client; the limiter refines an
    abstract lockout machine per client, through the locale that \<open>Basic_Auth\<close> uses it by.
  \<^item> \<open>Concurrent_Limiter\<close> (\<^verbatim>\<open>internal/proxy/limits.go\<close>): slots per client and in all, for connections and
    for tunnels; the locale \<open>slot_limiter\<close> is the contract, every interleaving keeps the limits.
  \<^item> \<open>Config\<close> (\<^verbatim>\<open>internal/config/config.go\<close>): defaults, environment overrides, validation, \<^verbatim>\<open>Load\<close>.
  \<^item> \<open>Destination_ACL\<close> (\<^verbatim>\<open>internal/proxy/acl.go\<close>): approval and dialling of destinations; the reserved
    address tests are compared with the special-purpose registries; the locale \<open>destination_policy\<close>
    states what dialling relies on.
  \<^item> \<open>Headers\<close> (\<^verbatim>\<open>internal/proxy/headers.go\<close>): hop-by-hop and identifying headers, \<^verbatim>\<open>Via\<close>, trailers.
  \<^item> \<open>Tunnel_Registry\<close>, \<open>Idle_Controller\<close>, \<open>Tunnel_Relay\<close> (\<^verbatim>\<open>internal/tunnel/tunnel.go\<close>): tracking and
    closing tunnels, the idle timeout as a timed step relation, copying in one direction, and the join of
    the two directions as a step relation \<open>relay_step\<close> run against peers that stall.
  \<^item> \<open>Connect_Protocol\<close>, \<open>Upstream\<close> (\<^verbatim>\<open>internal/proxy/upstream.go\<close>): the CONNECT request and response with
    its byte budget, and the connection for a tunnel.
  \<^item> \<open>Proxy_Server\<close> (\<^verbatim>\<open>internal/proxy/server.go\<close>): \<^verbatim>\<open>NewServer\<close>, \<^verbatim>\<open>ServeHTTP\<close> and the handlers.
    \<open>Server_Connections\<close>, \<open>Server_State\<close> and \<open>Server_Messages\<close> prove what they do to the network, to the
    server's state, and to messages and logs.
  \<^item> \<open>Certificate\<close> (\<^verbatim>\<open>internal/proxy/certificate.go\<close>) and \<open>Run\<close> (\<^verbatim>\<open>internal/proxy/run.go\<close>,
    \<^verbatim>\<open>cmd/https_proxy/main.go\<close>): TLS certificates reloaded at most once per interval, start-up, shutdown
    and exit code.

  \<^bold>\<open>How the parts interact.\<close>  \<open>Run\<close> validates the configuration, builds a \<open>Server\<close> and a limited listener and
  serves until the context ends, then closes the tunnels through the registry.  \<open>ServeHTTP\<close> asks
  \<open>Authenticate\<close> first.  \<open>handleHTTP\<close> approves the destination, rewrites the headers and gives the request
  to the HTTP client, whose dial function checks again.  \<open>handleTunneling\<close> takes a tunnel slot, approves
  the destination, opens the connection, tracks it, and relays; slot and registration are given back
  on every path.

  \<^bold>\<open>State and effects.\<close>  State is passed explicitly in records; a body that runs under a mutex is one
  step.  Errors are values of \<open>err\<close>, fallible functions return \<open>err + 'a\<close>.  Code that blocks or touches the
  outside takes the outside as an argument: \<open>net_env\<close> (name resolution, dialling, TLS, reading, writing),
  \<open>tun_env\<close> (the client side of a tunnel and what other handlers do meanwhile), \<open>http_Do\<close> for
  \<^verbatim>\<open>http.Client.Do\<close>, and \<open>run_env\<close>.  \<open>observe\<close> adds a log of dial attempts, openings and closings to an
  environment; \<open>logged_read\<close>, \<open>logged_write\<close> and \<open>watched\<close> do the same for the copy loop and the certificate
  files.  Other handlers act on the server by the steps of \<open>other_step\<close>, any number of them while a
  tunnel is relayed.  Where a theorem needs a fact about the outside it is a named hypothesis:
  \<open>dials_through\<close>, \<open>client_side_closes_only\<close>, \<open>others_ok\<close>, \<open>io_writer\<close>, \<open>only_writes\<close>, a hash without
  collisions on the values compared; each has a concrete instance in the witness of the theorem.

  \<^bold>\<open>What the lemmas show.\<close>  Per component: an invariant and that every operation keeps it (limiters,
  registry, idle timer, reloader, server), the exact result of each operation on every branch
  (authentication, approval, validation, overrides, headers, statuses), and that clients of a contract
  need no more than the contract.  Across components: a request reaches only permitted addresses and
  only after authentication; a tunnel leaves no connection, slot or registration behind; what is
  forwarded, answered and logged is determined header by header and attribute by attribute; shutdown
  reaches every tunnel.

  \<^bold>\<open>Loops and bounds.\<close>  Loops over data are structural recursions.  The loops that read from an upstream
  are \<^theory_text>\<open>partial_function (option)\<close>: \<open>None\<close> is a loop that never returns, and \<open>connect_response_returns\<close>
  shows that this cannot happen for a reader that eventually returns data or an error, because each
  line consumes part of the 64 KiB budget.  \<open>writeAll\<close> and \<open>fill\<close> terminate by a measure.  The
  100 empty reads after which \<^verbatim>\<open>bufio\<close> gives up are those of the library.  Durations keep
  their 64-bit wrap-around where the code can reach it.

  \<^bold>\<open>Not modelled.\<close>  The YAML decoder, \<^verbatim>\<open>url.Parse\<close>, \<^verbatim>\<open>time.ParseDuration\<close>, SHA-256, TLS, the HTTP client and
  server of \<^verbatim>\<open>net/http\<close>, name resolution, sockets, files and signals are parameters.  Left out: debug log
  records, pools of copy buffers, clearing key bytes in memory, the timeouts that contexts put on
  dialling (their expiry is a result of the dial parameter), Unicode case mapping outside ASCII, and
  flag parsing.
\<close>

end
